theory Spec2Isabelle
  imports Complex_Main "HOL-Library.Word"
begin

section \<open>JavaScript values\<close>

text \<open>
  A JavaScript string is a sequence of UTF-16 code units. A character outside the basic
  plane is two units, a high surrogate (D800..DBFF) followed by a low one (DC00..DFFF).
\<close>

type_synonym u16 = "16 word"
type_synonym jsstring = "u16 list"

definition ustr :: "string \<Rightarrow> jsstring" where
  "ustr s = map of_char s"

text \<open>
  The values that travel through the adapter. Numbers that are not integers are kept
  (as rationals) because \<open>createQueries\<close> only asks for \<open>typeof x === "number"\<close>; \<open>JNaN\<close> is
  the number that compares false with everything.
\<close>

datatype jsval =
    JUndefined
  | JNull
  | JBool bool
  | JNum rat
  | JNaN
  | JStr jsstring
  | JDate int
  | JArr "jsval list"

fun truthy :: "jsval \<Rightarrow> bool" where
  "truthy JUndefined = False"
| "truthy JNull = False"
| "truthy (JBool b) = b"
| "truthy (JNum r) = (r \<noteq> 0)"
| "truthy JNaN = False"
| "truthy (JStr s) = (s \<noteq> [])"
| "truthy (JDate t) = True"
| "truthy (JArr xs) = True"

text \<open>\<open>a || b\<close>\<close>

definition js_or :: "jsval \<Rightarrow> jsval \<Rightarrow> jsval" where
  "js_or a b = (if truthy a then a else b)"

text \<open>\<open>xs[i]\<close> on an array: \<open>undefined\<close> out of range.\<close>

definition idx :: "jsval list \<Rightarrow> nat \<Rightarrow> jsval" where
  "idx xs i = (if i < length xs then xs ! i else JUndefined)"

text \<open>
  Every \<open>throw new Error(...)\<close> of the adapter, named after the kind of failure; the
  string says which throw it is. \<open>External\<close> is a failure raised by code the adapter
  calls but does not define (a hook, the validation, the converter, a callback).
  \<open>ReferenceError\<close> is what the evaluation of an identifier that nothing binds throws; the
  string is the identifier.
\<close>

datatype error =
    InvalidArgument string
  | PreconditionFailed string
  | NotFound string
  | Disabled
  | Overflow
  | DependencyExists jsstring
  | InvalidQueryType
  | Unsupported
  | StoreFailure string
  | External nat
  | ReferenceError string


section \<open>Query constraints\<close>

text \<open>
  A store predicate, what the driver's \<open>where\<close>, \<open>orderBy\<close> and \<open>limit\<close> give.
\<close>

typedecl query

text \<open>
  The module calls \<open>where\<close>, \<open>orderBy\<close> and \<open>limit\<close> but neither declares nor imports them:
  its only import is \<open>logger\<close>. In a module an identifier that nothing binds is looked up
  in the global scope, where these three are not defined, so evaluating the call throws
  \<open>ReferenceError\<close> before any argument is looked at.
\<close>

definition js_where :: "jsval list \<Rightarrow> error + query" where
  "js_where args = Inl (ReferenceError ''where'')"

definition js_orderBy :: "jsval list \<Rightarrow> error + query" where
  "js_orderBy args = Inl (ReferenceError ''orderBy'')"

definition js_limit :: "jsval list \<Rightarrow> error + query" where
  "js_limit args = Inl (ReferenceError ''limit'')"

text \<open>
  The body of the \<open>forEach\<close> in \<open>createQueries\<close>: \<open>const [type, ...args] = constraint\<close>,
  then the \<open>switch\<close>. The tests of the \<open>orderBy\<close> and \<open>limit\<close> cases come before the calls.
\<close>

definition createQuery :: "jsval list \<Rightarrow> error + query" where
  "createQuery constraint =
     (let type = idx constraint 0; args = tl constraint in
      if type = JStr (ustr ''where'') then js_where args
      else if type = JStr (ustr ''orderBy'') then
        (if js_or (idx args 1) (JStr (ustr ''asc'')) \<notin> {JStr (ustr ''asc''), JStr (ustr ''desc'')}
         then Inl (InvalidArgument ''orderBy direction'')
         else js_orderBy [idx args 0, js_or (idx args 1) (JStr (ustr ''asc''))])
      else if type = JStr (ustr ''limit'') then
        (case idx args 0 of
           JNum n \<Rightarrow> if n \<le> 0 then Inl (InvalidArgument ''limit value'')
                     else js_limit [JNum n]
         | JNaN \<Rightarrow> js_limit [JNaN]
         | _ \<Rightarrow> Inl (InvalidArgument ''limit value''))
      else Inl InvalidQueryType)"

text \<open>The \<open>forEach\<close> itself: the first throw ends the call, \<open>result\<close> grows by \<open>push\<close>.\<close>

fun createQueries_loop :: "jsval list list \<Rightarrow> query list \<Rightarrow> error + query list" where
  "createQueries_loop [] result = Inr result"
| "createQueries_loop (c # cs) result =
     (case createQuery c of
        Inl e \<Rightarrow> Inl e
      | Inr q \<Rightarrow> createQueries_loop cs (result @ [q]))"

definition createQueries :: "jsval list list \<Rightarrow> error + query list" where
  "createQueries constraints = createQueries_loop constraints []"


section \<open>The N-gram tokenizer\<close>

text \<open>
  What \<open>\s\<close> matches and \<open>trim\<close> removes: the white space and line terminator code units
  of ECMAScript.
\<close>

definition isSpace :: "u16 \<Rightarrow> bool" where
  "isSpace c \<longleftrightarrow>
     c \<in> {0x09, 0x0A, 0x0B, 0x0C, 0x0D, 0x20, 0xA0, 0x1680, 0x2028, 0x2029,
          0x202F, 0x205F, 0x3000, 0xFEFF} \<or> (0x2000 \<le> c \<and> c \<le> 0x200A)"

definition isSurrogate :: "u16 \<Rightarrow> bool" where
  "isSurrogate c \<longleftrightarrow> (0xD800 \<le> c \<and> c \<le> 0xDBFF) \<or> (0xDC00 \<le> c \<and> c \<le> 0xDFFF)"

definition isMeta :: "u16 \<Rightarrow> bool" where
  "isMeta c \<longleftrightarrow> c \<in> {0x7E, 0x2A, 0x5B, 0x5D}"

text \<open>
  One code unit is matched by the regular expression
  \<open>/[\uD800-\uDBFF]|[\uDC00-\uDFFF]|~|\*|\[|\]|\s+/g\<close> exactly when it is a surrogate, one
  of \<open>~ * [ ]\<close> or white space; replacing every match by the empty string keeps the
  other units in order.
\<close>

definition removed :: "u16 \<Rightarrow> bool" where
  "removed c \<longleftrightarrow> isSurrogate c \<or> isMeta c \<or> isSpace c"

definition strip :: "jsstring \<Rightarrow> jsstring" where
  "strip s = filter (\<lambda>c. \<not> removed c) s"

definition trim :: "jsstring \<Rightarrow> jsstring" where
  "trim s = rev (dropWhile isSpace (rev (dropWhile isSpace s)))"

text \<open>\<open>s.substring(i, j)\<close> for \<open>i \<le> j\<close>: both ends are clamped to the length.\<close>

definition substring :: "jsstring \<Rightarrow> nat \<Rightarrow> nat \<Rightarrow> jsstring" where
  "substring s i j = take (j - i) (drop i s)"

text \<open>\<open>[...new Set(xs)]\<close>: the first occurrence of every element, in order.\<close>

fun js_Set_add :: "'a list \<Rightarrow> 'a list \<Rightarrow> 'a list" where
  "js_Set_add acc [] = acc"
| "js_Set_add acc (x # xs) = js_Set_add (if x \<in> set acc then acc else acc @ [x]) xs"

definition js_Set :: "'a list \<Rightarrow> 'a list" where
  "js_Set xs = js_Set_add [] xs"

text \<open>
  \<open>[...target]\<close> iterates by code point; \<open>target\<close> holds no surrogate, so there is one
  element per code unit and the index \<open>i\<close> runs over \<open>0 ..< target.length\<close>.
  \<open>slice(0, -1)\<close> drops the last element.
\<close>

definition tokens :: "jsstring \<Rightarrow> jsstring list" where
  "tokens target =
     js_Set (map (\<lambda>i. substring target i (i + 1)) [0 ..< length target]
           @ butlast (map (\<lambda>i. substring target i (i + 2)) [0 ..< length target]))"

text \<open>
  \<open>tokens.forEach((token) => result.add(where(`tokenMap.${token}`, "==", true)))\<close>: the
  first throw ends the call. Every predicate would be a new object, so the \<open>Set\<close> named
  \<open>result\<close> would keep all of them, in the order of the tokens.
\<close>

fun add_queries :: "jsstring list \<Rightarrow> query list \<Rightarrow> error + query list" where
  "add_queries [] result = Inr result"
| "add_queries (token # ts) result =
     (case js_where [JStr (ustr ''tokenMap.'' @ token), JStr (ustr ''==''), JBool True] of
        Inl e \<Rightarrow> Inl e
      | Inr q \<Rightarrow> add_queries ts (result @ [q]))"

definition createTokenMapQueries :: "jsstring \<Rightarrow> error + query list" where
  "createTokenMapQueries constraints =
     (if constraints = [] \<or> length (trim constraints) = 0
      then Inl (InvalidArgument ''constraints'')
      else add_queries (tokens (strip constraints)) [])"


section \<open>Documents, the store and its transactions\<close>

text \<open>
  An object (an instance of a model class, or the data of a document) maps property names
  to values; a missing property reads as \<open>undefined\<close>.
\<close>

type_synonym obj = "jsstring \<rightharpoonup> jsval"

definition get_prop :: "obj \<Rightarrow> string \<Rightarrow> jsval" where
  "get_prop ob k = (case ob (ustr k) of None \<Rightarrow> JUndefined | Some v \<Rightarrow> v)"

text \<open>A document reference: the path of its collection and its id.\<close>

type_synonym ref = "jsstring \<times> jsstring"

text \<open>
  The documents of the store are kept as an association list, so that a query can walk
  them; the first entry of a reference is the document.
\<close>

type_synonym documents = "(ref \<times> obj) list"

fun set_doc :: "ref \<Rightarrow> obj \<Rightarrow> documents \<Rightarrow> documents" where
  "set_doc r d [] = [(r, d)]"
| "set_doc r d ((r', d') # ds) = (if r' = r then (r, d) # ds else (r', d') # set_doc r d ds)"

fun delete_doc :: "ref \<Rightarrow> documents \<Rightarrow> documents" where
  "delete_doc r [] = []"
| "delete_doc r ((r', d') # ds) = (if r' = r then delete_doc r ds else (r', d') # delete_doc r ds)"

text \<open>
  A counter document of the \<open>Autonumbers\<close> collection, with the types of the persisted
  layout. \<open>current\<close> and \<open>length\<close> are JavaScript numbers that hold integers.
\<close>

record counter =
  c_status :: bool
  c_current :: int
  c_length :: nat
  c_field :: jsstring

text \<open>The \<open>Autonumbers\<close> collection is keyed by the path of the numbered collection.\<close>

record store =
  docs :: documents
  autonumbers :: "jsstring \<rightharpoonup> counter"

text \<open>
  The writes a transaction or a batch can hold: \<open>set\<close>, \<open>delete\<close>, and the one \<open>update\<close> the
  adapter issues, \<open>update(counterRef, {current: n})\<close>.
\<close>

datatype write_op =
    WSet ref obj
  | WDelete ref
  | WUpdateCurrent jsstring int

text \<open>
  A transaction reads from the state of the store at its start and collects writes, which
  reach the store together when it commits.
\<close>

record txn =
  snapshot :: store
  writes :: "write_op list"

definition issue :: "write_op \<Rightarrow> txn \<Rightarrow> txn" where
  "issue w t = t\<lparr>writes := writes t @ [w]\<rparr>"

text \<open>\<open>update\<close> of a document that does not exist makes the commit fail.\<close>

fun apply_write :: "write_op \<Rightarrow> store \<Rightarrow> store option" where
  "apply_write (WSet r d) s = Some (s\<lparr>docs := set_doc r d (docs s)\<rparr>)"
| "apply_write (WDelete r) s = Some (s\<lparr>docs := delete_doc r (docs s)\<rparr>)"
| "apply_write (WUpdateCurrent path n) s =
     (case autonumbers s path of
        None \<Rightarrow> None
      | Some c \<Rightarrow> Some (s\<lparr>autonumbers := (autonumbers s)(path \<mapsto> c\<lparr>c_current := n\<rparr>)\<rparr>))"

fun commit :: "write_op list \<Rightarrow> store \<Rightarrow> store option" where
  "commit [] s = Some s"
| "commit (w # ws) s = (case apply_write w s of None \<Rightarrow> None | Some s' \<Rightarrow> commit ws s')"

text \<open>The document a write is aimed at, when it is a write to a document of a collection.\<close>

fun write_ref :: "write_op \<Rightarrow> ref option" where
  "write_ref (WSet r d) = Some r"
| "write_ref (WDelete r) = Some r"
| "write_ref (WUpdateCurrent path n) = None"

text \<open>
  \<open>firestore.runTransaction(updateFunction)\<close> under serial execution: the function runs on
  a new transaction; when it throws nothing is written, otherwise its writes are committed.
  The second component of what the function returns is the instance it worked on, which
  is not part of the store.
\<close>

definition runTransaction ::
  "(txn \<Rightarrow> (error + 'a) \<times> obj \<times> txn) \<Rightarrow> store \<Rightarrow> (error + 'a) \<times> obj \<times> store" where
  "runTransaction updateFunction s =
     (case updateFunction \<lparr>snapshot = s, writes = []\<rparr> of
        (Inl e, this, t) \<Rightarrow> (Inl e, this, s)
      | (Inr r, this, t) \<Rightarrow>
          (case commit (writes t) s of
             None \<Rightarrow> (Inl (StoreFailure ''commit''), this, s)
           | Some s' \<Rightarrow> (Inr r, this, s')))"


section \<open>The model class and the environment\<close>

text \<open>An entry of \<open>hasMany\<close>: \<open>{type, collection, field, condition}\<close>.\<close>

record relation =
  r_type :: jsstring
  r_collection :: jsstring
  r_field :: jsstring
  r_condition :: jsstring

text \<open>
  What the adapter asks of \<open>this.constructor\<close> and of the instance: the static
  configuration, the converter that \<open>set\<close> runs on a reference made \<open>withConverter\<close>, and
  the hooks. A hook may change the instance or fail.
\<close>

record model =
  getCollectionPath :: "jsstring option \<Rightarrow> jsstring"
  useAutonumber :: bool
  logicalDelete :: bool
  hasMany :: "relation list"
  converter :: "obj \<Rightarrow> error + obj"
  beforeCreate :: "obj \<Rightarrow> error + obj"
  beforeUpdate :: "obj \<Rightarrow> error + obj"
  beforeDelete :: "obj \<Rightarrow> error + obj"
  validate :: "obj \<Rightarrow> error option"

text \<open>
  What the outside gives to one call: the id \<open>colRef.doc()\<close> generates, the successive
  readings of the clock (\<open>clock 0\<close> is the first \<open>new Date()\<close> of the call, \<open>clock 1\<close> the
  second), and the store's meaning of a \<open>where\<close> operator (operator, field value, operand).
\<close>

record env =
  generatedId :: jsstring
  clock :: "nat \<Rightarrow> int"
  opHolds :: "jsstring \<Rightarrow> jsval \<Rightarrow> jsval \<Rightarrow> bool"

text \<open>
  The \<open>callBack\<close> argument: \<open>null\<close>, a value that is not a function, or a function. A
  function is given the transaction; it issues writes and may then throw.
\<close>

datatype callback =
    NoCallback
  | NotAFunction
  | Callback "txn \<Rightarrow> write_op list \<times> error option"

text \<open>What a method leaves behind: its result, the instance, the caller's transaction, the store.\<close>

record 'a ret =
  result :: "error + 'a"
  this_out :: obj
  txn_out :: "txn option"
  store_out :: store

text \<open>\<open>txn.set(docRef, data)\<close> on a reference with a converter.\<close>

definition txn_set :: "(obj \<Rightarrow> error + obj) \<Rightarrow> txn \<Rightarrow> ref \<Rightarrow> obj \<Rightarrow> error + txn" where
  "txn_set conv t r data = (case conv data of Inl e \<Rightarrow> Inl e | Inr d \<Rightarrow> Inr (issue (WSet r d) t))"

text \<open>\<open>if (callBack) await callBack(txn)\<close>\<close>

definition run_callBack :: "callback \<Rightarrow> txn \<Rightarrow> error option \<times> txn" where
  "run_callBack callBack t =
     (case callBack of
        Callback f \<Rightarrow> (snd (f t), t\<lparr>writes := writes t @ fst (f t)\<rparr>)
      | _ \<Rightarrow> (None, t))"


section \<open>setAutonumber\<close>

text \<open>
  A JavaScript number is an IEEE double. Every integer of magnitude at most \<open>2^53\<close> is a
  double; of a larger integer, \<open>to_double\<close> is the nearest double, the one with the even
  53-bit significand when two are equally near. The result of \<open>+\<close> and \<open>-\<close> on doubles that
  hold integers is the exact result rounded so. (Not modelled: the overflow to \<open>Infinity\<close>
  beyond \<open>2^1024\<close>; \<open>Math.pow(10, n)\<close> is taken as the double nearest to \<open>10^n\<close>, which it is
  exactly for \<open>n\<close> up to 22.)
\<close>

fun bit_length :: "nat \<Rightarrow> nat" where
  "bit_length n = (if n = 0 then 0 else Suc (bit_length (n div 2)))"

declare bit_length.simps [simp del]

definition to_double :: "int \<Rightarrow> int" where
  "to_double n =
     (if \<bar>n\<bar> \<le> 2 ^ 53 then n
      else
        (let e = bit_length (nat \<bar>n\<bar>) - 53;
             q = \<bar>n\<bar> div 2 ^ e;
             r = \<bar>n\<bar> mod 2 ^ e;
             q' = (if 2 * r > 2 ^ e \<or> (2 * r = 2 ^ e \<and> odd q) then q + 1 else q)
         in sgn n * (q' * 2 ^ e)))"

text \<open>
  \<open>String(n)\<close> for an integer \<open>n\<close> (the decimal digits, which is what JavaScript gives below
  \<open>10^21\<close>), and \<open>s.padStart(len, "0")\<close>.
\<close>

fun digits :: "nat \<Rightarrow> jsstring" where
  "digits n = (if n < 10 then [of_nat (48 + n)] else digits (n div 10) @ [of_nat (48 + n mod 10)])"

declare digits.simps [simp del]

definition js_String :: "int \<Rightarrow> jsstring" where
  "js_String n = (if n < 0 then 0x2D # digits (nat (- n)) else digits (nat n))"

definition padStart :: "nat \<Rightarrow> jsstring \<Rightarrow> jsstring" where
  "padStart len s = replicate (len - length s) 0x30 @ s"

text \<open>
  \<open>setAutonumber\<close> reads the counter in the transaction, stamps the new code on the
  instance and returns the closure \<open>() => transaction.update(docRef, {current: newNumber})\<close>,
  here the write that the closure issues when it is called.
\<close>

definition setAutonumber ::
  "model \<Rightarrow> txn option \<Rightarrow> jsstring option \<Rightarrow> obj \<Rightarrow> error + (obj \<times> write_op)" where
  "setAutonumber m transaction prefix this =
     (case transaction of
        None \<Rightarrow> Inl (InvalidArgument ''transaction'')
      | Some t \<Rightarrow>
          (let collectionPath = getCollectionPath m prefix in
           case autonumbers (snapshot t) collectionPath of
             None \<Rightarrow> Inl (NotFound ''Autonumber'')
           | Some data \<Rightarrow>
               if \<not> c_status data then Inl Disabled
               else
                 (let newNumber = to_double (c_current data + 1);
                      len = c_length data;
                      maxValue = to_double (to_double (10 ^ len) - 1) in
                  if newNumber > maxValue then Inl Overflow
                  else
                    (let newCode = padStart len (js_String newNumber) in
                     Inr (this(c_field data \<mapsto> JStr newCode),
                          WUpdateCurrent collectionPath newNumber)))))"


section \<open>create\<close>

text \<open>
  \<open>colRef.doc(d)\<close> appends the path \<open>d\<close> to the path of the collection: the id of the
  reference is the last segment of \<open>d\<close>, and what \<open>d\<close> holds before its last slash goes to
  the path of the reference's collection. (Not modelled: the driver refuses a path that
  does not name a document.)
\<close>

definition lastSegment :: "jsstring \<Rightarrow> jsstring" where
  "lastSegment d = rev (takeWhile (\<lambda>c. c \<noteq> 0x2F) (rev d))"

definition parentPath :: "jsstring \<Rightarrow> jsstring" where
  "parentPath d = rev (drop 1 (dropWhile (\<lambda>c. c \<noteq> 0x2F) (rev d)))"

definition doc_in :: "jsstring \<Rightarrow> jsstring \<Rightarrow> ref" where
  "doc_in collectionPath d =
     (if 0x2F \<in> set d
      then (collectionPath @ ustr ''/'' @ parentPath d, lastSegment d)
      else (collectionPath, d))"

text \<open>
  \<open>docId ? colRef.doc(docId) : colRef.doc()\<close>: the reference of the new document; without
  a (non-empty) \<open>docId\<close> the store generates the id.
\<close>

definition new_doc_ref :: "model \<Rightarrow> env \<Rightarrow> jsstring option \<Rightarrow> jsstring option \<Rightarrow> ref" where
  "new_doc_ref m e docId prefix =
     (case docId of
        None \<Rightarrow> (getCollectionPath m prefix, generatedId e)
      | Some d \<Rightarrow>
          if d \<noteq> [] then doc_in (getCollectionPath m prefix) d
          else (getCollectionPath m prefix, generatedId e))"

text \<open>
  The four assignments before the entity write: \<open>this.docId = docRef.id\<close>,
  \<open>this.createdAt = new Date()\<close>, \<open>this.updatedAt = new Date()\<close>,
  \<open>this.uid = "cloud functions"\<close>.
\<close>

definition stamp_create :: "env \<Rightarrow> ref \<Rightarrow> obj \<Rightarrow> obj" where
  "stamp_create e docRef this =
     this(ustr ''docId'' \<mapsto> JStr (snd docRef),
          ustr ''createdAt'' \<mapsto> JDate (clock e 0),
          ustr ''updatedAt'' \<mapsto> JDate (clock e 1),
          ustr ''uid'' \<mapsto> JStr (ustr ''cloud functions''))"

definition create_performTransaction ::
  "model \<Rightarrow> env \<Rightarrow> jsstring option \<Rightarrow> bool \<Rightarrow> callback \<Rightarrow> jsstring option \<Rightarrow> obj \<Rightarrow> txn
     \<Rightarrow> (error + ref) \<times> obj \<times> txn" where
  "create_performTransaction m e docId useAutonumber_arg callBack prefix this t =
     (case (if useAutonumber m \<and> useAutonumber_arg
            then (case setAutonumber m (Some t) prefix this of
                    Inl err \<Rightarrow> Inl err
                  | Inr (this', w) \<Rightarrow> Inr (this', Some w))
            else Inr (this, None)) of
        Inl err \<Rightarrow> (Inl err, this, t)
      | Inr (this1, updateAutonumber) \<Rightarrow>
          (let docRef = new_doc_ref m e docId prefix;
               this2 = stamp_create e docRef this1
           in case txn_set (converter m) t docRef this2 of
                Inl err \<Rightarrow> (Inl err, this2, t)
              | Inr t1 \<Rightarrow>
                  (let t2 = (case updateAutonumber of None \<Rightarrow> t1 | Some w \<Rightarrow> issue w t1)
                   in case run_callBack callBack t2 of
                        (Some err, t3) \<Rightarrow> (Inl err, this2, t3)
                      | (None, t3) \<Rightarrow> (Inr docRef, this2, t3))))"

definition create ::
  "model \<Rightarrow> env \<Rightarrow> jsstring option \<Rightarrow> bool \<Rightarrow> txn option \<Rightarrow> callback \<Rightarrow> jsstring option
     \<Rightarrow> obj \<Rightarrow> store \<Rightarrow> ref ret" where
  "create m e docId useAutonumber_arg transaction callBack prefix this s =
     (case callBack of
        NotAFunction \<Rightarrow>
          \<lparr>result = Inl (InvalidArgument ''callBack''), this_out = this,
           txn_out = transaction, store_out = s\<rparr>
      | _ \<Rightarrow>
        (case beforeCreate m this of
           Inl err \<Rightarrow> \<lparr>result = Inl err, this_out = this, txn_out = transaction, store_out = s\<rparr>
         | Inr this1 \<Rightarrow>
           (case validate m this1 of
              Some err \<Rightarrow>
                \<lparr>result = Inl err, this_out = this1, txn_out = transaction, store_out = s\<rparr>
            | None \<Rightarrow>
              (case transaction of
                 Some t \<Rightarrow>
                   (case create_performTransaction m e docId useAutonumber_arg callBack prefix this1 t of
                      (r, this2, t') \<Rightarrow>
                        \<lparr>result = r, this_out = this2, txn_out = Some t', store_out = s\<rparr>)
               | None \<Rightarrow>
                   (case runTransaction
                           (create_performTransaction m e docId useAutonumber_arg callBack prefix this1) s of
                      (r, this2, s') \<Rightarrow>
                        \<lparr>result = r, this_out = this2, txn_out = None, store_out = s'\<rparr>)))))"

text \<open>
  One allocation in a transaction of its own, as \<open>create\<close> performs it around the entity
  write: \<open>setAutonumber\<close>, then the closure it returned.
\<close>

definition allocate :: "model \<Rightarrow> jsstring option \<Rightarrow> obj \<Rightarrow> store \<Rightarrow> (error + unit) \<times> obj \<times> store" where
  "allocate m prefix this s =
     runTransaction
       (\<lambda>t. case setAutonumber m (Some t) prefix this of
               Inl err \<Rightarrow> (Inl err, this, t)
             | Inr (this', w) \<Rightarrow> (Inr (), this', issue w t))
       s"

text \<open>
  Serial execution: the attempts run one after the other, each on a new instance \<open>this\<close>,
  each seeing the store the one before left. An attempt gives its error or the instance
  with the code stamped on it.
\<close>

fun serial_allocations ::
  "model \<Rightarrow> jsstring option \<Rightarrow> obj \<Rightarrow> nat \<Rightarrow> store \<Rightarrow> (error + obj) list \<times> store" where
  "serial_allocations m prefix this 0 s = ([], s)"
| "serial_allocations m prefix this (Suc n) s =
     (case allocate m prefix this s of
        (r, this', s') \<Rightarrow>
          (case serial_allocations m prefix this n s' of
             (rs, s'') \<Rightarrow> ((case r of Inl err \<Rightarrow> Inl err | Inr u \<Rightarrow> Inr this') # rs, s'')))"


section \<open>update\<close>

text \<open>
  \<open>colRef.doc(id)\<close> with an argument asks for a non-empty string and throws otherwise.
\<close>

definition doc_ref :: "jsstring \<Rightarrow> jsval \<Rightarrow> error + ref" where
  "doc_ref collectionPath v =
     (case v of
        JStr d \<Rightarrow> if d = [] then Inl (StoreFailure ''documentPath'') else Inr (collectionPath, d)
      | _ \<Rightarrow> Inl (StoreFailure ''documentPath''))"

definition update_performTransaction ::
  "model \<Rightarrow> env \<Rightarrow> callback \<Rightarrow> jsstring option \<Rightarrow> obj \<Rightarrow> txn \<Rightarrow> (error + ref) \<times> obj \<times> txn" where
  "update_performTransaction m e callBack prefix this t =
     (case doc_ref (getCollectionPath m prefix) (get_prop this ''docId'') of
        Inl err \<Rightarrow> (Inl err, this, t)
      | Inr docRef \<Rightarrow>
          (let this1 = this(ustr ''updatedAt'' \<mapsto> JDate (clock e 0),
                            ustr ''uid'' \<mapsto> JStr (ustr ''cloud functions''))
           in case txn_set (converter m) t docRef this1 of
                Inl err \<Rightarrow> (Inl err, this1, t)
              | Inr t1 \<Rightarrow>
                  (case run_callBack callBack t1 of
                     (Some err, t2) \<Rightarrow> (Inl err, this1, t2)
                   | (None, t2) \<Rightarrow> (Inr docRef, this1, t2))))"

definition update ::
  "model \<Rightarrow> env \<Rightarrow> txn option \<Rightarrow> callback \<Rightarrow> jsstring option \<Rightarrow> obj \<Rightarrow> store \<Rightarrow> ref ret" where
  "update m e transaction callBack prefix this s =
     (case callBack of
        NotAFunction \<Rightarrow>
          \<lparr>result = Inl (InvalidArgument ''callBack''), this_out = this,
           txn_out = transaction, store_out = s\<rparr>
      | _ \<Rightarrow>
        if \<not> truthy (get_prop this ''docId'') then
          \<lparr>result = Inl (PreconditionFailed ''update''), this_out = this,
           txn_out = transaction, store_out = s\<rparr>
        else
        (case beforeUpdate m this of
           Inl err \<Rightarrow> \<lparr>result = Inl err, this_out = this, txn_out = transaction, store_out = s\<rparr>
         | Inr this1 \<Rightarrow>
           (case validate m this1 of
              Some err \<Rightarrow>
                \<lparr>result = Inl err, this_out = this1, txn_out = transaction, store_out = s\<rparr>
            | None \<Rightarrow>
              (case transaction of
                 Some t \<Rightarrow>
                   (case update_performTransaction m e callBack prefix this1 t of
                      (r, this2, t') \<Rightarrow>
                        \<lparr>result = r, this_out = this2, txn_out = Some t', store_out = s\<rparr>)
               | None \<Rightarrow>
                   (case runTransaction (update_performTransaction m e callBack prefix this1) s of
                      (r, this2, s') \<Rightarrow>
                        \<lparr>result = r, this_out = this2, txn_out = None, store_out = s'\<rparr>)))))"


section \<open>hasChild\<close>

text \<open>\<open>path.replace(/^\/|\/$/g, "")\<close>: one slash less at the start and at the end.\<close>

definition trimSlashes :: "jsstring \<Rightarrow> jsstring" where
  "trimSlashes p =
     (let p1 = (if p \<noteq> [] \<and> hd p = 0x2F then tl p else p)
      in if p1 \<noteq> [] \<and> last p1 = 0x2F then butlast p1 else p1)"

text \<open>The id of a collection is the last segment of its path.\<close>

definition collectionId :: "jsstring \<Rightarrow> jsstring" where
  "collectionId path = rev (takeWhile (\<lambda>c. c \<noteq> 0x2F) (rev path))"

text \<open>Whether some document of the store satisfies \<open>P\<close>: a query result that is not empty.\<close>

definition exists_doc :: "documents \<Rightarrow> (ref \<Rightarrow> obj \<Rightarrow> bool) \<Rightarrow> bool" where
  "exists_doc ds P =
     list_ex (\<lambda>r. case map_of ds r of None \<Rightarrow> False | Some d \<Rightarrow> P r d) (map fst ds)"

text \<open>
  The collection path of a relation: under the prefix when the relation is a collection
  and a prefix is given, the name of the collection otherwise.
\<close>

definition relation_path :: "jsstring option \<Rightarrow> relation \<Rightarrow> jsstring" where
  "relation_path prefix item =
     (case prefix of
        Some p \<Rightarrow>
          if r_type item = ustr ''collection'' \<and> p \<noteq> []
          then trimSlashes (p @ ustr ''/'' @ r_collection item)
          else r_collection item
      | None \<Rightarrow> r_collection item)"

text \<open>
  Whether a document is in what the relation queries, \<open>firestore.collection(collectionPath)\<close>
  or \<open>firestore.collectionGroup(item.collection)\<close>, and whether it passes
  \<open>where(item.field, item.condition, docId)\<close>. A document without the field passes no
  \<open>where\<close>.
\<close>

definition in_relation :: "jsstring option \<Rightarrow> relation \<Rightarrow> ref \<Rightarrow> bool" where
  "in_relation prefix item r =
     (if r_type item = ustr ''collection''
      then fst r = relation_path prefix item
      else collectionId (fst r) = r_collection item)"

definition where_holds :: "env \<Rightarrow> relation \<Rightarrow> jsval \<Rightarrow> obj \<Rightarrow> bool" where
  "where_holds e item docId d =
     (case d (r_field item) of
        None \<Rightarrow> False
      | Some v \<Rightarrow> opHolds e (r_condition item) v docId)"

text \<open>
  The body of the loop over \<open>hasMany\<close>: the query
  \<open>colRef.where(item.field, item.condition, this.docId).limit(1)\<close> and \<open>!snapshot.empty\<close>.
\<close>

definition relation_has_child :: "env \<Rightarrow> store \<Rightarrow> jsstring option \<Rightarrow> jsval \<Rightarrow> relation \<Rightarrow> bool" where
  "relation_has_child e view prefix docId item =
     exists_doc (docs view) (\<lambda>r d. in_relation prefix item r \<and> where_holds e item docId d)"

fun hasChild_loop :: "(relation \<Rightarrow> bool) \<Rightarrow> relation list \<Rightarrow> relation option" where
  "hasChild_loop nonEmpty [] = None"
| "hasChild_loop nonEmpty (item # items) =
     (if nonEmpty item then Some item else hasChild_loop nonEmpty items)"

text \<open>
  \<open>hasChild\<close> reads through the transaction when it is given one and from the store
  otherwise. \<open>None\<close> is the \<open>false\<close> it returns when no relation has a child.
\<close>

definition hasChild ::
  "model \<Rightarrow> env \<Rightarrow> txn option \<Rightarrow> jsstring option \<Rightarrow> obj \<Rightarrow> store \<Rightarrow> error + relation option" where
  "hasChild m e transaction prefix this s =
     (if \<not> truthy (get_prop this ''docId'') then Inl (PreconditionFailed ''hasChild'')
      else
        (let view = (case transaction of None \<Rightarrow> s | Some t \<Rightarrow> snapshot t)
         in Inr (hasChild_loop (relation_has_child e view prefix (get_prop this ''docId''))
                   (hasMany m))))"


section \<open>delete and restore\<close>

definition archive_ref :: "ref \<Rightarrow> ref" where
  "archive_ref r = (fst r @ ustr ''_archive'', snd r)"

definition delete_performTransaction ::
  "model \<Rightarrow> env \<Rightarrow> callback \<Rightarrow> jsstring option \<Rightarrow> obj \<Rightarrow> ref \<Rightarrow> txn \<Rightarrow> (error + unit) \<times> obj \<times> txn" where
  "delete_performTransaction m e callBack prefix this docRef t =
     (case hasChild m e (Some t) prefix this (snapshot t) of
        Inl err \<Rightarrow> (Inl err, this, t)
      | Inr (Some item) \<Rightarrow> (Inl (DependencyExists (r_collection item)), this, t)
      | Inr None \<Rightarrow>
          (case (if logicalDelete m
                 then (case map_of (docs (snapshot t)) docRef of
                         None \<Rightarrow> Inl (NotFound ''delete'')
                       | Some sourceDocData \<Rightarrow>
                           Inr (issue (WSet (archive_ref docRef) sourceDocData) t))
                 else Inr t) of
             Inl err \<Rightarrow> (Inl err, this, t)
           | Inr t1 \<Rightarrow>
               (case run_callBack callBack (issue (WDelete docRef) t1) of
                  (Some err, t3) \<Rightarrow> (Inl err, this, t3)
                | (None, t3) \<Rightarrow> (Inr (), this, t3))))"

definition delete ::
  "model \<Rightarrow> env \<Rightarrow> txn option \<Rightarrow> callback \<Rightarrow> jsstring option \<Rightarrow> obj \<Rightarrow> store \<Rightarrow> unit ret" where
  "delete m e transaction callBack prefix this s =
     (case callBack of
        NotAFunction \<Rightarrow>
          \<lparr>result = Inl (InvalidArgument ''callBack''), this_out = this,
           txn_out = transaction, store_out = s\<rparr>
      | _ \<Rightarrow>
        if \<not> truthy (get_prop this ''docId'') then
          \<lparr>result = Inl (PreconditionFailed ''delete''), this_out = this,
           txn_out = transaction, store_out = s\<rparr>
        else
        (case beforeDelete m this of
           Inl err \<Rightarrow> \<lparr>result = Inl err, this_out = this, txn_out = transaction, store_out = s\<rparr>
         | Inr this1 \<Rightarrow>
           (case doc_ref (getCollectionPath m prefix) (get_prop this1 ''docId'') of
              Inl err \<Rightarrow>
                \<lparr>result = Inl err, this_out = this1, txn_out = transaction, store_out = s\<rparr>
            | Inr docRef \<Rightarrow>
              (case transaction of
                 Some t \<Rightarrow>
                   (case delete_performTransaction m e callBack prefix this1 docRef t of
                      (r, this2, t') \<Rightarrow>
                        \<lparr>result = r, this_out = this2, txn_out = Some t', store_out = s\<rparr>)
               | None \<Rightarrow>
                   (case runTransaction (delete_performTransaction m e callBack prefix this1 docRef) s of
                      (r, this2, s') \<Rightarrow>
                        \<lparr>result = r, this_out = this2, txn_out = None, store_out = s'\<rparr>)))))"

text \<open>
  \<open>restore\<close> reads the archive outside any transaction and moves the record back with a
  batch of two writes, committed together.
\<close>

definition restore :: "model \<Rightarrow> jsstring option \<Rightarrow> jsstring option \<Rightarrow> store \<Rightarrow> (error + ref) \<times> store" where
  "restore m docId prefix s =
     (case docId of
        None \<Rightarrow> (Inl (InvalidArgument ''docId''), s)
      | Some d \<Rightarrow>
          if d = [] then (Inl (InvalidArgument ''docId''), s)
          else
            (let docRef = (getCollectionPath m prefix, d);
                 archiveDocRef = archive_ref docRef
             in case map_of (docs s) archiveDocRef of
                  None \<Rightarrow> (Inl (NotFound ''archive''), s)
                | Some data \<Rightarrow>
                    (case commit [WDelete archiveDocRef, WSet docRef data] s of
                       None \<Rightarrow> (Inl (StoreFailure ''commit''), s)
                     | Some s' \<Rightarrow> (Inr docRef, s'))))"


section \<open>What a code denotes, and a small example\<close>

text \<open>The number that a string of decimal digits denotes.\<close>

definition decimal_value :: "jsstring \<Rightarrow> nat" where
  "decimal_value s = foldl (\<lambda>a d. 10 * a + (unat d - 48)) 0 s"

text \<open>
  A model class \<open>Customers\<close> with autonumbering, logical deletion and one dependent
  collection \<open>Sites\<close>, whose hooks and converter do nothing, and a counter of width 1.
\<close>

definition ex_model :: model where
  "ex_model =
     \<lparr>getCollectionPath =
        (\<lambda>prefix. case prefix of None \<Rightarrow> ustr ''Customers'' | Some p \<Rightarrow> p @ ustr ''/Customers''),
      useAutonumber = True,
      logicalDelete = True,
      hasMany = [\<lparr>r_type = ustr ''collection'', r_collection = ustr ''Sites'',
                  r_field = ustr ''customerId'', r_condition = ustr ''==''\<rparr>],
      converter = Inr,
      beforeCreate = Inr,
      beforeUpdate = Inr,
      beforeDelete = Inr,
      validate = (\<lambda>this. None)\<rparr>"

definition ex_counters :: "int \<Rightarrow> jsstring \<rightharpoonup> counter" where
  "ex_counters c =
     [ustr ''Customers'' \<mapsto> \<lparr>c_status = True, c_current = c, c_length = 1, c_field = ustr ''code''\<rparr>]"


text \<open>
  An environment whose clock advances by one between two readings and whose only operator
  is \<open>==\<close>; a store with two customers, one of them referenced by a site; a callback that
  issues a write and then throws.
\<close>

definition ex_env :: env where
  "ex_env =
     \<lparr>generatedId = ustr ''auto1'',
      clock = (\<lambda>n. 1000 + int n),
      opHolds = (\<lambda>op v x. op = ustr ''=='' \<and> v = x)\<rparr>"

definition ex_store :: store where
  "ex_store =
     \<lparr>docs =
        [((ustr ''Customers'', ustr ''c1''), [ustr ''name'' \<mapsto> JStr (ustr ''Ann'')]),
         ((ustr ''Customers'', ustr ''c2''), [ustr ''name'' \<mapsto> JStr (ustr ''Bob'')]),
         ((ustr ''Sites'', ustr ''s1''), [ustr ''customerId'' \<mapsto> JStr (ustr ''c1'')])],
      autonumbers = ex_counters 7\<rparr>"

definition ex_failing_callBack :: callback where
  "ex_failing_callBack =
     Callback (\<lambda>t. ([WSet (ustr ''Logs'', ustr ''l1'') [ustr ''what'' \<mapsto> JStr (ustr ''created'')]],
                     Some (External 1)))"


text \<open>A callback that writes another document over the archive record of customer \<open>c2\<close>.\<close>

definition ex_overwriting_callBack :: callback where
  "ex_overwriting_callBack =
     Callback (\<lambda>t. ([WSet (ustr ''Customers_archive'', ustr ''c2'')
                         [ustr ''name'' \<mapsto> JStr (ustr ''Eve'')]], None))"



section \<open>Properties of the tokenizer\<close>

lemma set_js_Set_add: "set (js_Set_add acc xs) = set acc \<union> set xs"
  by (induction xs arbitrary: acc) auto

lemma distinct_js_Set_add: "distinct acc \<Longrightarrow> distinct (js_Set_add acc xs)"
  by (induction xs arbitrary: acc) auto

lemma set_js_Set: "set (js_Set xs) = set xs"
  by (simp add: js_Set_def set_js_Set_add)

lemma distinct_js_Set: "distinct (js_Set xs)"
  by (simp add: js_Set_def distinct_js_Set_add)

lemma ngram_iff:
  "(\<exists>i. i + k \<le> length s \<and> t = take k (drop i s)) \<longleftrightarrow>
   (length t = k \<and> (\<exists>pre post. s = pre @ t @ post))"
proof
  assume "\<exists>i. i + k \<le> length s \<and> t = take k (drop i s)"
  then obtain i where i: "i + k \<le> length s" "t = take k (drop i s)" by blast
  have "s = take i s @ t @ drop k (drop i s)"
    using i by (metis append_take_drop_id)
  moreover have "length t = k" using i by simp
  ultimately show "length t = k \<and> (\<exists>pre post. s = pre @ t @ post)" by blast
next
  assume "length t = k \<and> (\<exists>pre post. s = pre @ t @ post)"
  then obtain pre post where p: "length t = k" "s = pre @ t @ post" by blast
  have "length pre + k \<le> length s \<and> t = take k (drop (length pre) s)"
    using p by simp
  then show "\<exists>i. i + k \<le> length s \<and> t = take k (drop i s)" by blast
qed

lemma one_char_set:
  "set (map (\<lambda>i. substring s i (i + 1)) [0 ..< length s]) =
   {t. length t = 1 \<and> (\<exists>pre post. s = pre @ t @ post)}"
proof -
  have "set (map (\<lambda>i. substring s i (i + 1)) [0 ..< length s]) =
        {t. \<exists>i. i + 1 \<le> length s \<and> t = take 1 (drop i s)}"
    unfolding set_map substring_def by (force simp: Suc_le_eq)
  then show ?thesis using ngram_iff [of 1 s] by simp
qed

lemma two_char_set:
  "set (butlast (map (\<lambda>i. substring s i (i + 2)) [0 ..< length s])) =
   {t. length t = 2 \<and> (\<exists>pre post. s = pre @ t @ post)}"
proof -
  have "butlast (map (\<lambda>i. substring s i (i + 2)) [0 ..< length s]) =
        map (\<lambda>i. substring s i (i + 2)) [0 ..< length s - 1]"
    by (simp add: butlast_conv_take take_map)
  then have "set (butlast (map (\<lambda>i. substring s i (i + 2)) [0 ..< length s])) =
        {t. \<exists>i. i + 2 \<le> length s \<and> t = take 2 (drop i s)}"
    unfolding set_map substring_def by (force simp: less_diff_conv)
  then show ?thesis using ngram_iff [of 2 s] by simp
qed

lemma set_tokens:
  "set (tokens s) = {t. (length t = 1 \<or> length t = 2) \<and> (\<exists>pre post. s = pre @ t @ post)}"
  unfolding tokens_def set_js_Set set_append one_char_set two_char_set by blast

lemma strip_no_surrogate: "c \<in> set (strip s) \<Longrightarrow> \<not> isSurrogate c"
  by (simp add: strip_def removed_def)

lemma trim_Nil: "trim [] = []"
  by (simp add: trim_def)

lemma add_queries_throws:
  "ts \<noteq> [] \<Longrightarrow> add_queries ts acc = Inl (ReferenceError ''where'')"
  by (cases ts) (simp_all add: js_where_def)

lemma createTokenMapQueries_throws:
  assumes "trim s \<noteq> []" and "strip s \<noteq> []"
  shows "createTokenMapQueries s = Inl (ReferenceError ''where'')"
proof -
  have "s \<noteq> []" using assms(1) trim_Nil by auto
  moreover have "tokens (strip s) \<noteq> []"
  proof -
    obtain c cs where "strip s = c # cs" using assms(2) by (cases "strip s") auto
    then have "[c] \<in> {t. (length t = 1 \<or> length t = 2) \<and> (\<exists>pre post. strip s = pre @ t @ post)}"
      by (auto intro: exI [of _ "[]"])
    then show ?thesis unfolding set_tokens [symmetric] by auto
  qed
  ultimately show ?thesis
    using assms(1) by (simp add: createTokenMapQueries_def add_queries_throws)
qed

text \<open>
  C7. For \<open>createTokenMapQueries("ab")\<close> the code computes the tokens \<open>a\<close>, \<open>b\<close>, \<open>ab\<close>, each
  once, and then throws \<open>ReferenceError\<close> at the first \<open>where(...)\<close>, which the module never
  binds: it returns no predicate. In general the token list has no duplicates and is
  exactly the set of contiguous substrings of length 1 or 2 of the stripped input, but
  no input with a token gets past the first \<open>where\<close>.
\<close>

theorem createTokenMapQueries_ab_throws:
  "tokens (strip (ustr ''ab'')) = [ustr ''a'', ustr ''b'', ustr ''ab'']
   \<and> createTokenMapQueries (ustr ''ab'') = Inl (ReferenceError ''where'')"
  by (simp add: createTokenMapQueries_def js_where_def ustr_def trim_def isSpace_def strip_def
      removed_def isSurrogate_def isMeta_def tokens_def substring_def js_Set_def upt_rec)

text \<open>
  C10. An input that is not empty after trimming and whose code units are all removed by
  the stripping step (white space, \<open>~ * [ ]\<close>, surrogates) does not fail: the call returns
  the empty list of predicates.
\<close>

theorem createTokenMapQueries_all_removed:
  assumes "trim s \<noteq> []" and "\<forall>c\<in>set s. removed c"
  shows "createTokenMapQueries s = Inr []"
proof -
  have "s \<noteq> []" using assms(1) trim_Nil by auto
  moreover have "strip s = []" using assms(2) by (simp add: strip_def)
  moreover have "tokens [] = []" by (simp add: tokens_def js_Set_def)
  ultimately show ?thesis using assms(1) by (simp add: createTokenMapQueries_def)
qed

theorem createTokenMapQueries_all_removed_witness:
  "trim [0xD83D, 0xDE00, 0x7E] \<noteq> []
   \<and> removed 0xD83D \<and> removed 0xDE00 \<and> removed 0x7E
   \<and> createTokenMapQueries [0xD83D, 0xDE00, 0x7E] = Inr []"
  using createTokenMapQueries_all_removed [of "[0xD83D, 0xDE00, 0x7E]"]
  by (simp add: trim_def isSpace_def removed_def isSurrogate_def isMeta_def)


section \<open>Properties of createQueries\<close>

lemma createQueries_first_failure:
  assumes "createQuery c = Inl e"
  shows "createQueries (c # post) = Inl e"
  using assms by (simp add: createQueries_def)

text \<open>
  C8, as the code has it. The call fails at its first constraint in these cases: when
  that constraint is tagged \<open>orderBy\<close> and its direction is truthy and neither \<open>"asc"\<close> nor
  \<open>"desc"\<close>, with \<open>InvalidArgument\<close>; when it is tagged \<open>limit\<close> and its argument is not a
  number, or is a number that is at most 0, with \<open>InvalidArgument\<close>; when its tag is none of
  \<open>where\<close>, \<open>orderBy\<close>, \<open>limit\<close>, with \<open>InvalidQueryType\<close>.
\<close>

theorem createQueries_rejects:
  "(truthy (idx args 1) \<and> idx args 1 \<notin> {JStr (ustr ''asc''), JStr (ustr ''desc'')} \<longrightarrow>
      createQueries ((JStr (ustr ''orderBy'') # args) # post)
        = Inl (InvalidArgument ''orderBy direction''))
   \<and> ((\<forall>n. idx args 0 = JNum n \<longrightarrow> n \<le> 0) \<and> idx args 0 \<noteq> JNaN \<longrightarrow>
      createQueries ((JStr (ustr ''limit'') # args) # post)
        = Inl (InvalidArgument ''limit value''))
   \<and> (idx c 0 \<notin> {JStr (ustr ''where''), JStr (ustr ''orderBy''), JStr (ustr ''limit'')} \<longrightarrow>
      createQueries (c # post) = Inl InvalidQueryType)"
proof -
  have dir: "createQueries ((JStr (ustr ''orderBy'') # args) # post)
        = Inl (InvalidArgument ''orderBy direction'')"
    if "truthy (idx args 1) \<and> idx args 1 \<notin> {JStr (ustr ''asc''), JStr (ustr ''desc'')}"
  proof -
    have "createQuery (JStr (ustr ''orderBy'') # args) = Inl (InvalidArgument ''orderBy direction'')"
      using that by (simp add: createQuery_def idx_def js_or_def ustr_def)
    then show ?thesis by (rule createQueries_first_failure)
  qed
  have lim: "createQueries ((JStr (ustr ''limit'') # args) # post)
        = Inl (InvalidArgument ''limit value'')"
    if "(\<forall>n. idx args 0 = JNum n \<longrightarrow> n \<le> 0) \<and> idx args 0 \<noteq> JNaN"
  proof -
    have "createQuery (JStr (ustr ''limit'') # args) = Inl (InvalidArgument ''limit value'')"
      using that by (cases "idx args 0") (simp_all add: createQuery_def idx_def ustr_def)
    then show ?thesis by (rule createQueries_first_failure)
  qed
  have tag: "createQueries (c # post) = Inl InvalidQueryType"
    if "idx c 0 \<notin> {JStr (ustr ''where''), JStr (ustr ''orderBy''), JStr (ustr ''limit'')}"
  proof -
    have "createQuery c = Inl InvalidQueryType"
      using that by (simp add: createQuery_def Let_def)
    then show ?thesis by (rule createQueries_first_failure)
  qed
  from dir lim tag show ?thesis by blast
qed

text \<open>
  C8 as it is stated fails. A bad \<open>limit\<close> behind a constraint with an unknown tag is never
  reached: the call fails with \<open>InvalidQueryType\<close>. A \<open>limit\<close> of 2.5 is not a positive
  integer, and an \<open>orderBy\<close> direction that is the empty string is present and is neither
  \<open>"asc"\<close> nor \<open>"desc"\<close>, yet neither fails with \<open>InvalidArgument\<close>: both pass the test of
  their case, and the call then ends in the \<open>ReferenceError\<close> of the unbound \<open>limit\<close> or
  \<open>orderBy\<close>.
\<close>

theorem createQueries_rejects_counterexample:
  "createQueries [[JStr (ustr ''sort'')], [JStr (ustr ''limit''), JNum 0]] = Inl InvalidQueryType
   \<and> createQueries [[JStr (ustr ''limit''), JNum (5 / 2)]] = Inl (ReferenceError ''limit'')
   \<and> createQueries [[JStr (ustr ''orderBy''), JStr (ustr ''age''), JStr []]]
        = Inl (ReferenceError ''orderBy'')"
  by (simp add: createQueries_def createQuery_def idx_def js_or_def ustr_def
      js_limit_def js_orderBy_def)

theorem createQueries_rejects_witness:
  "createQueries ((JStr (ustr ''orderBy'') # [JStr (ustr ''age''), JStr (ustr ''up'')])
        # [[JStr (ustr ''limit''), JNum 10]])
      = Inl (InvalidArgument ''orderBy direction'')
   \<and> createQueries ((JStr (ustr ''limit'') # [JNum (- 1)]) # [[JStr (ustr ''limit''), JNum 10]])
      = Inl (InvalidArgument ''limit value'')
   \<and> createQueries ([JStr (ustr ''offset''), JNum 3] # [[JStr (ustr ''limit''), JNum 10]])
      = Inl InvalidQueryType"
proof -
  have a: "truthy (idx [JStr (ustr ''age''), JStr (ustr ''up'')] 1)
        \<and> idx [JStr (ustr ''age''), JStr (ustr ''up'')] 1 \<notin> {JStr (ustr ''asc''), JStr (ustr ''desc'')}"
    by (simp add: idx_def ustr_def)
  have b: "(\<forall>n. idx [JNum (- 1)] 0 = JNum n \<longrightarrow> n \<le> 0) \<and> idx [JNum (- 1)] 0 \<noteq> JNaN"
    by (simp add: idx_def)
  have c: "idx [JStr (ustr ''offset''), JNum 3] 0
        \<notin> {JStr (ustr ''where''), JStr (ustr ''orderBy''), JStr (ustr ''limit'')}"
    by (simp add: idx_def ustr_def)
  show ?thesis
    using a b c
      createQueries_rejects [where args = "[JStr (ustr ''age''), JStr (ustr ''up'')]"
        and post = "[[JStr (ustr ''limit''), JNum 10]]" and c = "[JStr (ustr ''offset''), JNum 3]"]
      createQueries_rejects [where args = "[JNum (- 1)]"
        and post = "[[JStr (ustr ''limit''), JNum 10]]" and c = "[JStr (ustr ''offset''), JNum 3]"]
    by blast
qed


section \<open>Properties of autonumbering\<close>

lemma to_double_safe: "\<bar>n\<bar> \<le> 2 ^ 53 \<Longrightarrow> to_double n = n"
  by (simp add: to_double_def)

lemma maxValue_safe:
  assumes "10 ^ L \<le> (2 :: int) ^ 53"
  shows "to_double (to_double (10 ^ L) - 1) = 10 ^ L - 1"
proof -
  have p: "(0 :: int) < 10 ^ L" by simp
  have "to_double (10 ^ L) = 10 ^ L" using assms p by (intro to_double_safe) simp
  moreover have "to_double (10 ^ L - 1) = 10 ^ L - 1" using assms p by (intro to_double_safe) simp
  ultimately show ?thesis by simp
qed

lemma allocate_ok:
  assumes "autonumbers s (getCollectionPath m prefix)
             = Some \<lparr>c_status = True, c_current = c, c_length = L, c_field = f\<rparr>"
    and "c + 1 \<le> 10 ^ L - 1" and "10 ^ L \<le> (2 :: int) ^ 53" and "- (2 ^ 53) \<le> c"
  shows "allocate m prefix this s =
     (Inr (),
      this(f \<mapsto> JStr (padStart L (js_String (c + 1)))),
      s\<lparr>autonumbers := (autonumbers s)(getCollectionPath m prefix \<mapsto>
            \<lparr>c_status = True, c_current = c + 1, c_length = L, c_field = f\<rparr>)\<rparr>)"
proof -
  have "to_double (c + 1) = c + 1" using assms(2-4) by (intro to_double_safe) simp
  then show ?thesis
    using assms(1,2) maxValue_safe [OF assms(3)]
    by (simp add: allocate_def runTransaction_def setAutonumber_def issue_def Let_def)
qed

lemma allocate_overflow:
  assumes "autonumbers s (getCollectionPath m prefix)
             = Some \<lparr>c_status = True, c_current = c, c_length = L, c_field = f\<rparr>"
    and "\<not> c + 1 \<le> 10 ^ L - 1" and "10 ^ L \<le> (2 :: int) ^ 53" and "c < 2 ^ 53"
  shows "allocate m prefix this s = (Inl Overflow, this, s)"
proof -
  have "0 \<le> c" using assms(2) by (smt (verit) one_le_power)
  then have "to_double (c + 1) = c + 1" using assms(4) by (intro to_double_safe) simp
  then show ?thesis
    using assms(1,2) maxValue_safe [OF assms(3)]
    by (simp add: allocate_def runTransaction_def setAutonumber_def issue_def Let_def)
qed

lemma upt_shift: "map g [Suc 0 ..< Suc (Suc N)] = g (Suc 0) # map (\<lambda>i. g (Suc i)) [Suc 0 ..< Suc N]"
proof -
  have "[Suc 0 ..< Suc (Suc N)] = Suc 0 # map Suc [Suc 0 ..< Suc N]"
    unfolding map_Suc_upt by (simp add: upt_conv_Cons del: upt_Suc)
  then show ?thesis by (simp add: comp_def del: upt_Suc)
qed

lemma serial_allocations_ok:
  assumes "autonumbers s (getCollectionPath m prefix)
             = Some \<lparr>c_status = True, c_current = c, c_length = L, c_field = f\<rparr>"
    and "c + int N \<le> 10 ^ L - 1" and "10 ^ L \<le> (2 :: int) ^ 53" and "- (2 ^ 53) \<le> c"
  shows "serial_allocations m prefix this N s =
     (map (\<lambda>i. Inr (this(f \<mapsto> JStr (padStart L (js_String (c + int i)))))) [1 ..< Suc N],
      s\<lparr>autonumbers := (autonumbers s)(getCollectionPath m prefix \<mapsto>
            \<lparr>c_status = True, c_current = c + int N, c_length = L, c_field = f\<rparr>)\<rparr>)"
  using assms
proof (induction N arbitrary: s c)
  case 0
  then show ?case by (simp add: map_upd_triv)
next
  case (Suc N)
  let ?p = "getCollectionPath m prefix"
  let ?s' = "s\<lparr>autonumbers := (autonumbers s)(?p \<mapsto>
               \<lparr>c_status = True, c_current = c + 1, c_length = L, c_field = f\<rparr>)\<rparr>"
  have step: "allocate m prefix this s =
     (Inr (), this(f \<mapsto> JStr (padStart L (js_String (c + 1)))), ?s')"
    using Suc.prems by (intro allocate_ok) auto
  have look: "autonumbers ?s' ?p
      = Some \<lparr>c_status = True, c_current = c + 1, c_length = L, c_field = f\<rparr>"
    by simp
  have le: "c + 1 + int N \<le> 10 ^ L - 1" using Suc.prems by simp
  have lo: "- (2 ^ 53) \<le> c + 1" using Suc.prems by simp
  have cur: "c + 1 + int i = c + int (Suc i)" for i by simp
  have fin: "?s'\<lparr>autonumbers := (autonumbers ?s')(?p \<mapsto> X)\<rparr>
      = s\<lparr>autonumbers := (autonumbers s)(?p \<mapsto> X)\<rparr>" for X
    by simp
  have rest: "serial_allocations m prefix this N ?s' =
     (map (\<lambda>i. Inr (this(f \<mapsto> JStr (padStart L (js_String (c + int (Suc i))))))) [1 ..< Suc N],
      s\<lparr>autonumbers := (autonumbers s)(?p \<mapsto>
            \<lparr>c_status = True, c_current = c + int (Suc N), c_length = L, c_field = f\<rparr>)\<rparr>)"
    using Suc.IH [OF look le Suc.prems(3) lo] unfolding cur fin .
  have one: "c + int (Suc 0) = c + 1" by simp
  show ?case
    unfolding serial_allocations.simps step prod.case sum.case rest One_nat_def upt_shift one ..
qed

lemma serial_allocations_nth:
  assumes "autonumbers s (getCollectionPath m prefix)
             = Some \<lparr>c_status = True, c_current = c, c_length = L, c_field = f\<rparr>"
    and "j < k" and "10 ^ L \<le> (2 :: int) ^ 53" and "- (2 ^ 53) \<le> c" and "c < 2 ^ 53"
  shows "fst (serial_allocations m prefix this k s) ! j =
     (if c + int (Suc j) \<le> 10 ^ L - 1
      then Inr (this(f \<mapsto> JStr (padStart L (js_String (c + int (Suc j))))))
      else Inl Overflow)"
  using assms
proof (induction k arbitrary: s c j)
  case 0
  then show ?case by simp
next
  case (Suc k)
  let ?p = "getCollectionPath m prefix"
  show ?case
  proof (cases "c + 1 \<le> 10 ^ L - 1")
    case True
    let ?s' = "s\<lparr>autonumbers := (autonumbers s)(?p \<mapsto>
                 \<lparr>c_status = True, c_current = c + 1, c_length = L, c_field = f\<rparr>)\<rparr>"
    have step: "allocate m prefix this s =
       (Inr (), this(f \<mapsto> JStr (padStart L (js_String (c + 1)))), ?s')"
      using Suc.prems True by (intro allocate_ok) auto
    show ?thesis
    proof (cases j)
      case 0
      then show ?thesis using True by (simp add: step split: prod.splits)
    next
      case j: (Suc j')
      have look: "autonumbers ?s' ?p
          = Some \<lparr>c_status = True, c_current = c + 1, c_length = L, c_field = f\<rparr>"
        by simp
      have lt: "j' < k" using Suc.prems j by simp
      have lo: "- (2 ^ 53) \<le> c + 1" using Suc.prems by simp
      have hi: "c + 1 < 2 ^ 53" using True Suc.prems(3) by simp
      have cur: "c + 1 + int (Suc j') = c + int (Suc (Suc j'))" by simp
      have nth: "fst (serial_allocations m prefix this (Suc k) s) ! Suc j'
          = fst (serial_allocations m prefix this k ?s') ! j'"
        unfolding serial_allocations.simps step by (simp split: prod.splits)
      show ?thesis
        unfolding j nth Suc.IH [OF look lt Suc.prems(3) lo hi] cur ..
    qed
  next
    case False
    have step: "allocate m prefix this s = (Inl Overflow, this, s)"
      using Suc.prems False by (intro allocate_overflow) auto
    show ?thesis
    proof (cases j)
      case 0
      then show ?thesis using False by (simp add: step split: prod.splits)
    next
      case j: (Suc j')
      have lt: "j' < k" using Suc.prems j by simp
      have nth: "fst (serial_allocations m prefix this (Suc k) s) ! Suc j'
          = fst (serial_allocations m prefix this k s) ! j'"
        unfolding serial_allocations.simps step by (simp split: prod.splits)
      have no: "\<not> c + int (Suc j') \<le> 10 ^ L - 1" "\<not> c + int (Suc (Suc j')) \<le> 10 ^ L - 1"
        using False by simp_all
      show ?thesis
        unfolding j nth Suc.IH [OF Suc.prems(1) lt Suc.prems(3-5)] using no by simp
    qed
  qed
qed

lemma length_digits: "n < 10 ^ L \<Longrightarrow> 0 < L \<Longrightarrow> length (digits n) \<le> L"
proof (induction n arbitrary: L rule: digits.induct)
  case (1 n)
  show ?case
  proof (cases "n < 10")
    case True
    then show ?thesis using "1.prems" by (simp add: digits.simps [of n])
  next
    case False
    then obtain L' where L: "L = Suc L'" using "1.prems" by (cases L) auto
    have "L' \<noteq> 0" using False "1.prems" L by (cases L') auto
    moreover have "n div 10 < 10 ^ L'" using "1.prems" L by (simp add: less_mult_imp_div_less)
    ultimately have "length (digits (n div 10)) \<le> L'"
      using "1.IH" [OF False, of L'] by simp
    then show ?thesis using False L by (simp add: digits.simps [of n])
  qed
qed

lemma digit_unat: "d < 10 \<Longrightarrow> unat (of_nat (48 + d) :: u16) - 48 = d"
proof -
  assume "d < 10"
  then have "(48 + d) mod 2 ^ LENGTH(16) = 48 + d" by simp
  then show ?thesis by (simp only: unat_of_nat)
qed

lemma decimal_value_append:
  "decimal_value (s @ [d]) = 10 * decimal_value s + (unat d - 48)"
  by (simp add: decimal_value_def)

lemma decimal_value_digits: "decimal_value (digits n) = n"
proof (induction n rule: digits.induct)
  case (1 n)
  show ?case
  proof (cases "n < 10")
    case True
    then show ?thesis
      using digit_unat [of n] by (simp add: digits.simps [of n] decimal_value_def)
  next
    case False
    have "n mod 10 < 10" by simp
    then have "unat (of_nat (48 + n mod 10) :: u16) - 48 = n mod 10" by (rule digit_unat)
    then show ?thesis
      using False "1.IH" [OF False]
      by (simp add: digits.simps [of n] decimal_value_append)
  qed
qed

lemma decimal_value_zeros: "decimal_value (replicate k 0x30 @ s) = decimal_value s"
proof -
  have "foldl (\<lambda>a d. 10 * a + (unat d - 48)) 0 (replicate k (0x30 :: u16)) = 0"
    by (induction k) simp_all
  then show ?thesis by (simp add: decimal_value_def)
qed

lemma code_width:
  assumes "0 < n" and "n \<le> 10 ^ L - 1"
  shows "length (padStart L (js_String n)) = L \<and> int (decimal_value (padStart L (js_String n))) = n"
proof -
  have L: "0 < L" using assms by (cases L) auto
  have "nat n < 10 ^ L" using assms by (simp add: nat_less_iff)
  then have "length (digits (nat n)) \<le> L" using L by (rule length_digits)
  then show ?thesis
    using assms by (simp add: padStart_def js_String_def decimal_value_zeros decimal_value_digits)
qed

text \<open>
  C1, as the code has it. Let the counter have \<open>status\<close> true, \<open>current = c\<close> and
  \<open>length = L\<close>, with \<open>10^L\<close> at most \<open>2^53\<close> and \<open>c\<close> from \<open>-2^53\<close> up to, not including, \<open>2^53\<close>, so
  that the numbers involved are exact. Under serial execution, as long as \<open>c + N\<close> does
  not exceed \<open>10^L - 1\<close>, \<open>N\<close> successive allocations succeed, the \<open>i\<close>-th stamps the code
  \<open>String(c + i).padStart(L, "0")\<close> on its instance, and the counter ends at \<open>c + N\<close>, one
  more per allocation; for \<open>c\<close> not negative such a code has exactly \<open>L\<close> digits and denotes
  \<open>c + i\<close>. The attempt number \<open>10^L - c + 1\<close> fails with \<open>Overflow\<close> (the list of results is
  indexed from 0), and so does the attempt before it, which is the first to fail.
\<close>

theorem autonumber_serial:
  assumes "autonumbers s (getCollectionPath m prefix)
             = Some \<lparr>c_status = True, c_current = c, c_length = L, c_field = f\<rparr>"
    and "10 ^ L \<le> (2 :: int) ^ 53" and "- (2 ^ 53) \<le> c" and "c < 2 ^ 53"
  shows "(c + int N \<le> 10 ^ L - 1 \<longrightarrow>
            serial_allocations m prefix this N s =
              (map (\<lambda>i. Inr (this(f \<mapsto> JStr (padStart L (js_String (c + int i)))))) [1 ..< Suc N],
               s\<lparr>autonumbers := (autonumbers s)(getCollectionPath m prefix \<mapsto>
                    \<lparr>c_status = True, c_current = c + int N, c_length = L, c_field = f\<rparr>)\<rparr>))
       \<and> (0 \<le> c \<and> 0 < i \<and> c + int i \<le> 10 ^ L - 1 \<longrightarrow>
            length (padStart L (js_String (c + int i))) = L
            \<and> int (decimal_value (padStart L (js_String (c + int i)))) = c + int i)
       \<and> (c < 10 ^ L \<longrightarrow>
            fst (serial_allocations m prefix this (nat (10 ^ L - c + 1)) s) ! nat (10 ^ L - c - 1)
              = Inl Overflow)
       \<and> (c \<le> 10 ^ L \<longrightarrow>
            fst (serial_allocations m prefix this (nat (10 ^ L - c + 1)) s) ! nat (10 ^ L - c)
              = Inl Overflow)"
proof -
  have ok: "serial_allocations m prefix this N s =
              (map (\<lambda>i. Inr (this(f \<mapsto> JStr (padStart L (js_String (c + int i)))))) [1 ..< Suc N],
               s\<lparr>autonumbers := (autonumbers s)(getCollectionPath m prefix \<mapsto>
                    \<lparr>c_status = True, c_current = c + int N, c_length = L, c_field = f\<rparr>)\<rparr>)"
    if "c + int N \<le> 10 ^ L - 1"
    using assms(1) that assms(2,3) by (rule serial_allocations_ok)
  have width: "length (padStart L (js_String (c + int i))) = L
      \<and> int (decimal_value (padStart L (js_String (c + int i)))) = c + int i"
    if "0 \<le> c \<and> 0 < i \<and> c + int i \<le> 10 ^ L - 1"
    using that by (intro code_width) auto
  have first: "fst (serial_allocations m prefix this (nat (10 ^ L - c + 1)) s) ! nat (10 ^ L - c - 1)
      = Inl Overflow" if c: "c < 10 ^ L"
  proof -
    have "nat (10 ^ L - c - 1) < nat (10 ^ L - c + 1)" using c by simp
    from serial_allocations_nth [OF assms(1) this assms(2-4)] show ?thesis using c by simp
  qed
  have named: "fst (serial_allocations m prefix this (nat (10 ^ L - c + 1)) s) ! nat (10 ^ L - c)
      = Inl Overflow" if c: "c \<le> 10 ^ L"
  proof -
    have "nat (10 ^ L - c) < nat (10 ^ L - c + 1)" using c by simp
    from serial_allocations_nth [OF assms(1) this assms(2-4)] show ?thesis using c by simp
  qed
  from ok width first named show ?thesis by blast
qed

text \<open>
  C1 as it is stated fails where the numbers are no longer exact. From \<open>current = 2^53\<close>
  with \<open>length = 16\<close>, \<open>current + 1\<close> is \<open>2^53\<close> again and \<open>10^16 - 1\<close> is \<open>10^16\<close>: every allocation
  succeeds with the code of \<open>2^53\<close> itself, not of \<open>c + 1\<close>, \<open>c + 2\<close>, and leaves the counter where
  it was.
\<close>

theorem autonumber_serial_counterexample:
  "serial_allocations ex_model None Map.empty 2
     \<lparr>docs = [],
      autonumbers = [ustr ''Customers'' \<mapsto>
        \<lparr>c_status = True, c_current = 9007199254740992, c_length = 16, c_field = ustr ''code''\<rparr>]\<rparr>
   = ([Inr [ustr ''code'' \<mapsto> JStr (ustr ''9007199254740992'')],
       Inr [ustr ''code'' \<mapsto> JStr (ustr ''9007199254740992'')]],
      \<lparr>docs = [],
       autonumbers = [ustr ''Customers'' \<mapsto>
         \<lparr>c_status = True, c_current = 9007199254740992, c_length = 16, c_field = ustr ''code''\<rparr>]\<rparr>)"
proof -
  have b: "bit_length 9007199254740993 = 54" "bit_length 9999999999999999 = 54"
    "bit_length 10000000000000000 = 54"
    by (simp_all add: bit_length.simps)
  have d: "to_double 9007199254740993 = 9007199254740992"
    "to_double 10000000000000000 = 10000000000000000"
    "to_double 9999999999999999 = 10000000000000000"
    by (simp_all add: to_double_def b Let_def)
  have code: "padStart 16 (js_String 9007199254740992) = ustr ''9007199254740992''"
    by (simp add: padStart_def js_String_def digits.simps ustr_def)
  have one: "allocate ex_model None Map.empty
     \<lparr>docs = [],
      autonumbers = [ustr ''Customers'' \<mapsto>
        \<lparr>c_status = True, c_current = 9007199254740992, c_length = 16, c_field = ustr ''code''\<rparr>]\<rparr>
   = (Inr (), [ustr ''code'' \<mapsto> JStr (ustr ''9007199254740992'')],
      \<lparr>docs = [],
       autonumbers = [ustr ''Customers'' \<mapsto>
         \<lparr>c_status = True, c_current = 9007199254740992, c_length = 16, c_field = ustr ''code''\<rparr>]\<rparr>)"
    by (simp add: allocate_def runTransaction_def setAutonumber_def issue_def Let_def
        ex_model_def d code)
  have two: "(2 :: nat) = Suc (Suc 0)" by simp
  show ?thesis unfolding two by (simp add: one)
qed

theorem autonumber_serial_witness:
  "serial_allocations ex_model None Map.empty 2 \<lparr>docs = [], autonumbers = ex_counters 7\<rparr> =
     ([Inr [ustr ''code'' \<mapsto> JStr (ustr ''8'')], Inr [ustr ''code'' \<mapsto> JStr (ustr ''9'')]],
      \<lparr>docs = [], autonumbers = ex_counters 9\<rparr>)
   \<and> fst (serial_allocations ex_model None Map.empty 4 \<lparr>docs = [], autonumbers = ex_counters 7\<rparr>) ! 2
        = Inl Overflow
   \<and> fst (serial_allocations ex_model None Map.empty 4 \<lparr>docs = [], autonumbers = ex_counters 7\<rparr>) ! 3
        = Inl Overflow"
proof -
  let ?s = "\<lparr>docs = [], autonumbers = ex_counters 7\<rparr>"
  have look: "autonumbers ?s (getCollectionPath ex_model None)
      = Some \<lparr>c_status = True, c_current = 7, c_length = 1, c_field = ustr ''code''\<rparr>"
    by (simp add: ex_model_def ex_counters_def)
  have b1: "10 ^ 1 \<le> (2 :: int) ^ 53" by simp
  have b2: "- (2 ^ 53) \<le> (7 :: int)" by simp
  have b3: "(7 :: int) < 2 ^ 53" by simp
  have fin: "?s\<lparr>autonumbers := (autonumbers ?s)(getCollectionPath ex_model None \<mapsto>
        \<lparr>c_status = True, c_current = 7 + int 2, c_length = 1, c_field = ustr ''code''\<rparr>)\<rparr>
      = \<lparr>docs = [], autonumbers = ex_counters 9\<rparr>"
    by (simp add: ex_model_def ex_counters_def)
  have upt: "[1 ..< Suc 2] = [1, 2]" by (simp add: upt_rec)
  note t = autonumber_serial [OF look b1 b2 b3, of 2 Map.empty 1]
  from t have 1: "serial_allocations ex_model None Map.empty 2 ?s =
     ([Inr [ustr ''code'' \<mapsto> JStr (ustr ''8'')], Inr [ustr ''code'' \<mapsto> JStr (ustr ''9'')]],
      \<lparr>docs = [], autonumbers = ex_counters 9\<rparr>)"
    unfolding fin upt by (simp add: padStart_def js_String_def digits.simps ustr_def)
  from t have 2: "fst (serial_allocations ex_model None Map.empty 4 ?s) ! 2 = Inl Overflow"
    by simp
  from t have 3: "fst (serial_allocations ex_model None Map.empty 4 ?s) ! 3 = Inl Overflow"
    by simp
  from 1 2 3 show ?thesis by blast
qed


section \<open>Properties of create\<close>

lemma setAutonumber_Inr:
  assumes "setAutonumber m (Some t) prefix this = Inr (this1, w)"
  shows "\<exists>cnt. autonumbers (snapshot t) (getCollectionPath m prefix) = Some cnt
           \<and> c_status cnt
           \<and> this1 = this(c_field cnt \<mapsto>
                 JStr (padStart (c_length cnt) (js_String (to_double (c_current cnt + 1)))))
           \<and> w = WUpdateCurrent (getCollectionPath m prefix) (to_double (c_current cnt + 1))"
  using assms
  by (auto simp: setAutonumber_def Let_def split: option.splits if_splits)

lemma run_callBack_writes:
  "run_callBack callBack t = (r, t') \<Longrightarrow> snapshot t' = snapshot t \<and> (\<exists>cbws. writes t' = writes t @ cbws)"
  by (auto simp: run_callBack_def split: callback.splits)

lemma create_body_cases:
  assumes "create_performTransaction m e docId ua callBack prefix this t = (r, this', t')"
  shows "(\<exists>err. useAutonumber m \<and> ua \<and> setAutonumber m (Some t) prefix this = Inl err
            \<and> r = Inl err \<and> this' = this \<and> t' = t)
       \<or> (\<exists>this1 ws.
             (if useAutonumber m \<and> ua
              then \<exists>w. setAutonumber m (Some t) prefix this = Inr (this1, w) \<and> ws = [w]
              else this1 = this \<and> ws = [])
             \<and> this' = stamp_create e (new_doc_ref m e docId prefix) this1
             \<and> ((\<exists>err. converter m this' = Inl err \<and> r = Inl err \<and> t' = t)
                \<or> (\<exists>d cbres. converter m this' = Inr d
                      \<and> run_callBack callBack
                            (t\<lparr>writes := writes t @ WSet (new_doc_ref m e docId prefix) d # ws\<rparr>)
                          = (cbres, t')
                      \<and> r = (case cbres of Some err \<Rightarrow> Inl err
                              | None \<Rightarrow> Inr (new_doc_ref m e docId prefix)))))"
  using assms
  by (auto simp: create_performTransaction_def Let_def txn_set_def issue_def
      split: sum.splits if_splits prod.splits option.splits)

lemma create_abort:
  "result (create m e docId ua None callBack prefix this s) = Inl err
     \<Longrightarrow> store_out (create m e docId ua None callBack prefix this s) = s"
  by (auto simp: create_def runTransaction_def
      split: callback.splits sum.splits option.splits prod.splits)

lemma map_of_set_doc: "map_of (set_doc r d ds) = (map_of ds)(r \<mapsto> d)"
  by (induction ds) (auto simp: fun_eq_iff)

lemma map_of_delete_doc: "map_of (delete_doc r ds) = (map_of ds)(r := None)"
  by (induction ds) (auto simp: fun_eq_iff)

lemma get_prop_stamp_create:
  "get_prop (stamp_create e docRef this) ''docId'' = JStr (snd docRef)"
  "get_prop (stamp_create e docRef this) ''createdAt'' = JDate (clock e 0)"
  "get_prop (stamp_create e docRef this) ''updatedAt'' = JDate (clock e 1)"
  "get_prop (stamp_create e docRef this) ''uid'' = JStr (ustr ''cloud functions'')"
  by (simp_all add: get_prop_def stamp_create_def ustr_def)

lemma stamp_create_other:
  "k \<notin> {ustr ''docId'', ustr ''createdAt'', ustr ''updatedAt'', ustr ''uid''}
     \<Longrightarrow> stamp_create e docRef this k = this k"
  by (simp add: stamp_create_def)

lemma create_cases:
  assumes "callBack \<noteq> NotAFunction" and "beforeCreate m this = Inr this0"
    and "validate m this0 = None"
  shows "create m e docId ua transaction callBack prefix this s =
     (case transaction of
        Some t \<Rightarrow>
          (case create_performTransaction m e docId ua callBack prefix this0 t of
             (r, this2, t') \<Rightarrow> \<lparr>result = r, this_out = this2, txn_out = Some t', store_out = s\<rparr>)
      | None \<Rightarrow>
          (case runTransaction (create_performTransaction m e docId ua callBack prefix this0) s of
             (r, this2, s') \<Rightarrow> \<lparr>result = r, this_out = this2, txn_out = None, store_out = s'\<rparr>))"
  using assms by (simp add: create_def split: callback.splits)

lemma create_success_hooks:
  assumes "result (create m e docId ua transaction callBack prefix this s) = Inr docRef"
  shows "callBack \<noteq> NotAFunction \<and> (\<exists>this0. beforeCreate m this = Inr this0 \<and> validate m this0 = None)"
  using assms
  by (auto simp: create_def split: callback.splits sum.splits option.splits)

lemmas ex_eval =
  create_def create_performTransaction_def runTransaction_def setAutonumber_def txn_set_def
  run_callBack_def issue_def new_doc_ref_def doc_in_def lastSegment_def parentPath_def
  stamp_create_def get_prop_def to_double_def
  ex_model_def ex_env_def ex_store_def ex_counters_def
  padStart_def js_String_def digits.simps ustr_def Let_def

text \<open>
  C4. In the transaction of a \<open>create\<close> that uses autonumbering, the writes the call adds
  to the transaction are either none, and then the call has failed, or the entity write
  followed at once by the counter write and then by whatever the callback issues: the
  counter write never comes before the entity write. When \<open>setAutonumber\<close> fails, or the
  entity write fails (its converter throws), the call fails with that error and has
  issued no write, so no counter write. And a \<open>create\<close> that runs its own transaction and
  fails leaves the store as it was: the counter is not incremented.
\<close>

theorem create_entity_write_first:
  assumes "useAutonumber m"
    and "create_performTransaction m e docId True callBack prefix this t = (r, this', t')"
  shows "snapshot t' = snapshot t
     \<and> ((writes t' = writes t \<and> (\<exists>err. r = Inl err))
        \<or> (\<exists>d n cbws. writes t' =
              writes t @ WSet (new_doc_ref m e docId prefix) d
                       # WUpdateCurrent (getCollectionPath m prefix) n # cbws))
     \<and> (\<forall>err. setAutonumber m (Some t) prefix this = Inl err
            \<longrightarrow> r = Inl err \<and> writes t' = writes t)
     \<and> (\<forall>this1 w err. setAutonumber m (Some t) prefix this = Inr (this1, w)
            \<and> converter m (stamp_create e (new_doc_ref m e docId prefix) this1) = Inl err
            \<longrightarrow> r = Inl err \<and> writes t' = writes t)
     \<and> (\<forall>err. result (create m e docId True None callBack prefix this s) = Inl err
            \<longrightarrow> store_out (create m e docId True None callBack prefix this s) = s)"
proof -
  note cases = create_body_cases [OF assms(2)]
  have snap: "snapshot t' = snapshot t"
    using cases by (auto dest!: run_callBack_writes)
  have shape: "(writes t' = writes t \<and> (\<exists>err. r = Inl err))
        \<or> (\<exists>d n cbws. writes t' =
              writes t @ WSet (new_doc_ref m e docId prefix) d
                       # WUpdateCurrent (getCollectionPath m prefix) n # cbws)"
    using cases assms(1)
    by (auto dest!: run_callBack_writes setAutonumber_Inr)
  have early: "r = Inl err \<and> writes t' = writes t"
    if "setAutonumber m (Some t) prefix this = Inl err" for err
    using cases assms(1) that by auto
  have at_write: "r = Inl err \<and> writes t' = writes t"
    if "setAutonumber m (Some t) prefix this = Inr (this1, w)
        \<and> converter m (stamp_create e (new_doc_ref m e docId prefix) this1) = Inl err"
    for this1 w err
    using cases assms(1) that by auto
  have abort: "store_out (create m e docId True None callBack prefix this s) = s"
    if "result (create m e docId True None callBack prefix this s) = Inl err" for err
    using that by (rule create_abort)
  from snap shape early at_write abort show ?thesis by blast
qed

theorem create_entity_write_first_witness:
  "useAutonumber ex_model
   \<and> create_performTransaction ex_model ex_env None True NoCallback None Map.empty
        \<lparr>snapshot = ex_store, writes = []\<rparr>
      = (Inr (ustr ''Customers'', ustr ''auto1''),
         [ustr ''code'' \<mapsto> JStr (ustr ''8''),
          ustr ''docId'' \<mapsto> JStr (ustr ''auto1''),
          ustr ''createdAt'' \<mapsto> JDate 1000,
          ustr ''updatedAt'' \<mapsto> JDate 1001,
          ustr ''uid'' \<mapsto> JStr (ustr ''cloud functions'')],
         \<lparr>snapshot = ex_store,
          writes = [WSet (ustr ''Customers'', ustr ''auto1'')
                      [ustr ''code'' \<mapsto> JStr (ustr ''8''),
                       ustr ''docId'' \<mapsto> JStr (ustr ''auto1''),
                       ustr ''createdAt'' \<mapsto> JDate 1000,
                       ustr ''updatedAt'' \<mapsto> JDate 1001,
                       ustr ''uid'' \<mapsto> JStr (ustr ''cloud functions'')],
                    WUpdateCurrent (ustr ''Customers'') 8]\<rparr>)
   \<and> (\<exists>d n cbws.
         [WSet (ustr ''Customers'', ustr ''auto1'')
            [ustr ''code'' \<mapsto> JStr (ustr ''8''),
             ustr ''docId'' \<mapsto> JStr (ustr ''auto1''),
             ustr ''createdAt'' \<mapsto> JDate 1000,
             ustr ''updatedAt'' \<mapsto> JDate 1001,
             ustr ''uid'' \<mapsto> JStr (ustr ''cloud functions'')],
          WUpdateCurrent (ustr ''Customers'') 8]
         = [] @ WSet (new_doc_ref ex_model ex_env None None) d
                # WUpdateCurrent (getCollectionPath ex_model None) n # cbws)"
proof -
  have h1: "useAutonumber ex_model" by (simp add: ex_model_def)
  have h2: "create_performTransaction ex_model ex_env None True NoCallback None Map.empty
        \<lparr>snapshot = ex_store, writes = []\<rparr>
      = (Inr (ustr ''Customers'', ustr ''auto1''),
         [ustr ''code'' \<mapsto> JStr (ustr ''8''),
          ustr ''docId'' \<mapsto> JStr (ustr ''auto1''),
          ustr ''createdAt'' \<mapsto> JDate 1000,
          ustr ''updatedAt'' \<mapsto> JDate 1001,
          ustr ''uid'' \<mapsto> JStr (ustr ''cloud functions'')],
         \<lparr>snapshot = ex_store,
          writes = [WSet (ustr ''Customers'', ustr ''auto1'')
                      [ustr ''code'' \<mapsto> JStr (ustr ''8''),
                       ustr ''docId'' \<mapsto> JStr (ustr ''auto1''),
                       ustr ''createdAt'' \<mapsto> JDate 1000,
                       ustr ''updatedAt'' \<mapsto> JDate 1001,
                       ustr ''uid'' \<mapsto> JStr (ustr ''cloud functions'')],
                    WUpdateCurrent (ustr ''Customers'') 8]\<rparr>)"
    by (simp add: create_performTransaction_def setAutonumber_def txn_set_def run_callBack_def
        issue_def new_doc_ref_def stamp_create_def ex_model_def ex_env_def ex_store_def
        ex_counters_def padStart_def js_String_def to_double_def digits.simps ustr_def Let_def)
  from create_entity_write_first [OF h1 h2, THEN conjunct2, THEN conjunct1]
  have "(\<exists>d n cbws.
         [WSet (ustr ''Customers'', ustr ''auto1'')
            [ustr ''code'' \<mapsto> JStr (ustr ''8''),
             ustr ''docId'' \<mapsto> JStr (ustr ''auto1''),
             ustr ''createdAt'' \<mapsto> JDate 1000,
             ustr ''updatedAt'' \<mapsto> JDate 1001,
             ustr ''uid'' \<mapsto> JStr (ustr ''cloud functions'')],
          WUpdateCurrent (ustr ''Customers'') 8]
         = [] @ WSet (new_doc_ref ex_model ex_env None None) d
                # WUpdateCurrent (getCollectionPath ex_model None) n # cbws)"
    by auto
  with h1 h2 show ?thesis by blast
qed

text \<open>
  C5, as the code has it. After a successful \<open>create\<close> without autonumbering, the
  instance's \<open>docId\<close> is the id of the reference that was obtained and is returned: that
  reference is in the model's collection under the id the caller gave when this is a
  non-empty string without a slash, and under the generated id when the caller gave none
  or the empty string. \<open>createdAt\<close> is the first reading of the clock and \<open>updatedAt\<close> the
  second, so the two are equal exactly when the readings are. The document written is
  the converter's image of the stamped instance: it is in the caller's transaction behind
  the writes already there, or, when \<open>create\<close> runs its own transaction without a callback,
  in the store.
\<close>

theorem create_stamps:
  assumes "\<not> (useAutonumber m \<and> ua)"
    and "result (create m e docId ua transaction callBack prefix this s) = Inr docRef"
  shows "docRef = new_doc_ref m e docId prefix
       \<and> (\<forall>d. docId = Some d \<and> d \<noteq> [] \<and> 0x2F \<notin> set d
              \<longrightarrow> docRef = (getCollectionPath m prefix, d))
       \<and> (docId = None \<or> docId = Some []
              \<longrightarrow> docRef = (getCollectionPath m prefix, generatedId e))
       \<and> get_prop (this_out (create m e docId ua transaction callBack prefix this s)) ''docId''
           = JStr (snd docRef)
       \<and> get_prop (this_out (create m e docId ua transaction callBack prefix this s)) ''createdAt''
           = JDate (clock e 0)
       \<and> get_prop (this_out (create m e docId ua transaction callBack prefix this s)) ''updatedAt''
           = JDate (clock e 1)
       \<and> (get_prop (this_out (create m e docId ua transaction callBack prefix this s)) ''createdAt''
            = get_prop (this_out (create m e docId ua transaction callBack prefix this s)) ''updatedAt''
          \<longleftrightarrow> clock e 0 = clock e 1)
       \<and> (\<exists>d. converter m (this_out (create m e docId ua transaction callBack prefix this s)) = Inr d
             \<and> (transaction = None \<and> callBack = NoCallback \<longrightarrow>
                  map_of (docs (store_out (create m e docId ua transaction callBack prefix this s)))
                    docRef = Some d)
             \<and> (\<forall>t. transaction = Some t \<longrightarrow>
                  (\<exists>t' cbws. txn_out (create m e docId ua transaction callBack prefix this s) = Some t'
                     \<and> writes t' = writes t @ WSet docRef d # cbws)))"
proof -
  let ?out = "create m e docId ua transaction callBack prefix this s"
  let ?ref = "new_doc_ref m e docId prefix"
  from create_success_hooks [OF assms(2)] obtain this0
    where cb: "callBack \<noteq> NotAFunction" and h: "beforeCreate m this = Inr this0"
      and v: "validate m this0 = None"
    by blast
  note out = create_cases [OF cb h v, of e docId ua transaction prefix s]
  obtain r this2 t' where
    body: "create_performTransaction m e docId ua callBack prefix this0
             (case transaction of None \<Rightarrow> \<lparr>snapshot = s, writes = []\<rparr> | Some t \<Rightarrow> t) = (r, this2, t')"
    by (metis prod_cases3)
  have res: "r = Inr docRef" and this_out: "this_out ?out = this2"
    using assms(2) body unfolding out
    by (auto simp: runTransaction_def split: option.splits sum.splits prod.splits)
  from create_body_cases [OF body] assms(1) res
  obtain d cbres where
    this2: "this2 = stamp_create e ?ref this0"
    and conv: "converter m this2 = Inr d"
    and cbk: "run_callBack callBack
        ((case transaction of None \<Rightarrow> \<lparr>snapshot = s, writes = []\<rparr> | Some t \<Rightarrow> t)
           \<lparr>writes := writes (case transaction of None \<Rightarrow> \<lparr>snapshot = s, writes = []\<rparr> | Some t \<Rightarrow> t)
              @ [WSet ?ref d]\<rparr>) = (cbres, t')"
    and r: "r = (case cbres of Some err \<Rightarrow> Inl err | None \<Rightarrow> Inr ?ref)"
    by auto
  have ref: "docRef = ?ref" using r res by (cases cbres) auto
  have given: "docRef = (getCollectionPath m prefix, d')"
    if "docId = Some d' \<and> d' \<noteq> [] \<and> 0x2F \<notin> set d'" for d'
    using that by (simp add: ref new_doc_ref_def doc_in_def)
  have generated: "docRef = (getCollectionPath m prefix, generatedId e)"
    if "docId = None \<or> docId = Some []"
    using that by (auto simp: ref new_doc_ref_def)
  have stored: "map_of (docs (store_out ?out)) docRef = Some d"
    if "transaction = None \<and> callBack = NoCallback"
    using that body cbk res unfolding out
    by (auto simp: runTransaction_def run_callBack_def ref map_of_set_doc)
  have issued: "\<exists>t'' cbws. txn_out ?out = Some t'' \<and> writes t'' = writes t @ WSet docRef d # cbws"
    if "transaction = Some t" for t
    using that body run_callBack_writes [OF cbk] unfolding out by (auto simp: ref)
  have stamps: "get_prop (this_out ?out) ''docId'' = JStr (snd docRef)"
    "get_prop (this_out ?out) ''createdAt'' = JDate (clock e 0)"
    "get_prop (this_out ?out) ''updatedAt'' = JDate (clock e 1)"
    unfolding this_out this2 get_prop_stamp_create ref by simp_all
  have conv': "converter m (this_out ?out) = Inr d" using conv this_out by simp
  have eq: "get_prop (this_out ?out) ''createdAt'' = get_prop (this_out ?out) ''updatedAt''
          \<longleftrightarrow> clock e 0 = clock e 1"
    unfolding stamps by simp
  from ref given generated stamps eq conv' stored issued show ?thesis by blast
qed

text \<open>
  C5 as it is stated fails twice. \<open>createdAt\<close> and \<open>updatedAt\<close> come from two calls of
  \<open>new Date()\<close>, and when the clock moves between them the stamps differ. And the \<open>docId\<close>
  stamped is the id of the reference, which for the given id \<open>x/y/z\<close> is \<open>z\<close>.
\<close>

theorem create_stamps_counterexample:
  "result (create ex_model ex_env None False None NoCallback None Map.empty ex_store)
     = Inr (ustr ''Customers'', ustr ''auto1'')
   \<and> get_prop (this_out (create ex_model ex_env None False None NoCallback None Map.empty ex_store))
       ''createdAt'' = JDate 1000
   \<and> get_prop (this_out (create ex_model ex_env None False None NoCallback None Map.empty ex_store))
       ''updatedAt'' = JDate 1001
   \<and> get_prop (this_out (create ex_model ex_env None False None NoCallback None Map.empty ex_store))
       ''createdAt''
     \<noteq> get_prop (this_out (create ex_model ex_env None False None NoCallback None Map.empty ex_store))
       ''updatedAt''
   \<and> result (create ex_model ex_env (Some (ustr ''x/y/z'')) False None NoCallback None
         Map.empty ex_store) = Inr (ustr ''Customers/x/y'', ustr ''z'')
   \<and> get_prop (this_out (create ex_model ex_env (Some (ustr ''x/y/z'')) False None NoCallback None
         Map.empty ex_store)) ''docId'' = JStr (ustr ''z'')
   \<and> get_prop (this_out (create ex_model ex_env (Some (ustr ''x/y/z'')) False None NoCallback None
         Map.empty ex_store)) ''docId'' \<noteq> JStr (ustr ''x/y/z'')"
  by (simp add: ex_eval)

theorem create_stamps_witness:
  "\<not> (useAutonumber ex_model \<and> False)
   \<and> result (create ex_model ex_env (Some (ustr ''c9'')) False None NoCallback None Map.empty ex_store)
       = Inr (ustr ''Customers'', ustr ''c9'')
   \<and> get_prop (this_out (create ex_model ex_env (Some (ustr ''c9'')) False None NoCallback None
         Map.empty ex_store)) ''docId'' = JStr (ustr ''c9'')
   \<and> get_prop (this_out (create ex_model ex_env (Some (ustr ''c9'')) False None NoCallback None
         Map.empty ex_store)) ''createdAt'' = JDate 1000
   \<and> get_prop (this_out (create ex_model ex_env (Some (ustr ''c9'')) False None NoCallback None
         Map.empty ex_store)) ''updatedAt'' = JDate 1001"
proof -
  have h1: "\<not> (useAutonumber ex_model \<and> False)" by simp
  have h2: "result (create ex_model ex_env (Some (ustr ''c9'')) False None NoCallback None
        Map.empty ex_store) = Inr (ustr ''Customers'', ustr ''c9'')"
    by (simp add: ex_eval)
  from create_stamps [OF h1 h2] h2 show ?thesis
    by (simp add: ex_env_def)
qed

text \<open>
  C9. When the callback is null or a function, the hooks pass and the allocation (if
  autonumbering is active) succeeds, a \<open>create\<close> in its own transaction that then fails,
  at the entity write, in the callback or at the commit, leaves the store unchanged and
  the instance stamped: \<open>docId\<close>, \<open>createdAt\<close>, \<open>updatedAt\<close> and \<open>uid\<close> hold their new values, and
  so does the counter's code field (as long as it is not one of those four names, which
  are assigned after it).
\<close>

theorem create_abort_keeps_stamps:
  assumes "callBack \<noteq> NotAFunction"
    and "beforeCreate m this = Inr this0"
    and "validate m this0 = None"
    and "if useAutonumber m \<and> ua
         then \<exists>w. setAutonumber m (Some \<lparr>snapshot = s, writes = []\<rparr>) prefix this0 = Inr (this1, w)
         else this1 = this0"
    and "result (create m e docId ua None callBack prefix this s) = Inl err"
  shows "store_out (create m e docId ua None callBack prefix this s) = s
       \<and> this_out (create m e docId ua None callBack prefix this s)
           = stamp_create e (new_doc_ref m e docId prefix) this1
       \<and> get_prop (this_out (create m e docId ua None callBack prefix this s)) ''docId''
           = JStr (snd (new_doc_ref m e docId prefix))
       \<and> get_prop (this_out (create m e docId ua None callBack prefix this s)) ''createdAt''
           = JDate (clock e 0)
       \<and> get_prop (this_out (create m e docId ua None callBack prefix this s)) ''updatedAt''
           = JDate (clock e 1)
       \<and> get_prop (this_out (create m e docId ua None callBack prefix this s)) ''uid''
           = JStr (ustr ''cloud functions'')
       \<and> (useAutonumber m \<and> ua \<longrightarrow>
            (\<exists>cnt. autonumbers s (getCollectionPath m prefix) = Some cnt
               \<and> this1 = this0(c_field cnt \<mapsto>
                    JStr (padStart (c_length cnt) (js_String (to_double (c_current cnt + 1)))))
               \<and> (c_field cnt \<notin> {ustr ''docId'', ustr ''createdAt'', ustr ''updatedAt'', ustr ''uid''}
                    \<longrightarrow> this_out (create m e docId ua None callBack prefix this s) (c_field cnt)
                        = Some (JStr (padStart (c_length cnt) (js_String (to_double (c_current cnt + 1))))))))"
proof -
  let ?out = "create m e docId ua None callBack prefix this s"
  let ?t = "\<lparr>snapshot = s, writes = []\<rparr>"
  have store: "store_out ?out = s" using assms(5) by (rule create_abort)
  note out = create_cases [OF assms(1-3), of e docId ua None prefix s]
  obtain r this2 t' where
    body: "create_performTransaction m e docId ua callBack prefix this0 ?t = (r, this2, t')"
    by (metis prod_cases3)
  have this_out: "this_out ?out = this2"
    using body unfolding out
    by (auto simp: runTransaction_def split: option.splits sum.splits prod.splits)
  have this2: "this2 = stamp_create e (new_doc_ref m e docId prefix) this1"
    using create_body_cases [OF body] assms(4) by (auto split: if_splits)
  have code: "\<exists>cnt. autonumbers s (getCollectionPath m prefix) = Some cnt
               \<and> this1 = this0(c_field cnt \<mapsto>
                    JStr (padStart (c_length cnt) (js_String (to_double (c_current cnt + 1)))))
               \<and> (c_field cnt \<notin> {ustr ''docId'', ustr ''createdAt'', ustr ''updatedAt'', ustr ''uid''}
                    \<longrightarrow> this_out ?out (c_field cnt)
                        = Some (JStr (padStart (c_length cnt) (js_String (to_double (c_current cnt + 1))))))"
    if "useAutonumber m \<and> ua"
  proof -
    from that assms(4) obtain w where
      "setAutonumber m (Some ?t) prefix this0 = Inr (this1, w)" by auto
    from setAutonumber_Inr [OF this] obtain cnt where
      cnt: "autonumbers s (getCollectionPath m prefix) = Some cnt"
      and this1: "this1 = this0(c_field cnt \<mapsto>
                    JStr (padStart (c_length cnt) (js_String (to_double (c_current cnt + 1)))))"
      by auto
    have "this_out ?out (c_field cnt)
          = Some (JStr (padStart (c_length cnt) (js_String (to_double (c_current cnt + 1)))))"
      if "c_field cnt \<notin> {ustr ''docId'', ustr ''createdAt'', ustr ''updatedAt'', ustr ''uid''}"
      unfolding this_out this2 stamp_create_other [OF that] using this1 by simp
    with cnt this1 show ?thesis by blast
  qed
  show ?thesis
    using store code unfolding this_out this2 get_prop_stamp_create by blast
qed

theorem create_abort_keeps_stamps_witness:
  "ex_failing_callBack \<noteq> NotAFunction
   \<and> beforeCreate ex_model Map.empty = Inr Map.empty
   \<and> validate ex_model Map.empty = None
   \<and> result (create ex_model ex_env None True None ex_failing_callBack None Map.empty ex_store)
       = Inl (External 1)
   \<and> store_out (create ex_model ex_env None True None ex_failing_callBack None Map.empty ex_store)
       = ex_store
   \<and> this_out (create ex_model ex_env None True None ex_failing_callBack None Map.empty ex_store)
       = [ustr ''code'' \<mapsto> JStr (ustr ''8''),
          ustr ''docId'' \<mapsto> JStr (ustr ''auto1''),
          ustr ''createdAt'' \<mapsto> JDate 1000,
          ustr ''updatedAt'' \<mapsto> JDate 1001,
          ustr ''uid'' \<mapsto> JStr (ustr ''cloud functions'')]"
proof -
  have h1: "ex_failing_callBack \<noteq> NotAFunction" by (simp add: ex_failing_callBack_def)
  have h2: "beforeCreate ex_model Map.empty = Inr Map.empty" by (simp add: ex_model_def)
  have h3: "validate ex_model Map.empty = None" by (simp add: ex_model_def)
  have h4: "if useAutonumber ex_model \<and> True
         then \<exists>w. setAutonumber ex_model (Some \<lparr>snapshot = ex_store, writes = []\<rparr>) None Map.empty
                    = Inr ([ustr ''code'' \<mapsto> JStr (ustr ''8'')], w)
         else [ustr ''code'' \<mapsto> JStr (ustr ''8'')] = Map.empty"
    by (simp add: ex_eval)
  have h5: "result (create ex_model ex_env None True None ex_failing_callBack None Map.empty ex_store)
       = Inl (External 1)"
    by (simp add: ex_eval ex_failing_callBack_def)
  have st: "stamp_create ex_env (new_doc_ref ex_model ex_env None None)
              [ustr ''code'' \<mapsto> JStr (ustr ''8'')]
       = [ustr ''code'' \<mapsto> JStr (ustr ''8''),
          ustr ''docId'' \<mapsto> JStr (ustr ''auto1''),
          ustr ''createdAt'' \<mapsto> JDate 1000,
          ustr ''updatedAt'' \<mapsto> JDate 1001,
          ustr ''uid'' \<mapsto> JStr (ustr ''cloud functions'')]"
    by (simp add: ex_eval)
  from create_abort_keeps_stamps [OF h1 h2 h3 h4 h5] h1 h2 h3 h5 show ?thesis
    unfolding st by blast
qed


section \<open>Properties of update\<close>

text \<open>
  C6, as the code has it. On an instance whose \<open>docId\<close> is not set (or is any falsy value),
  \<open>update\<close> fails before anything else happens: the instance, the caller's transaction
  and the store are as they were, no hook has run and nothing has been read or written.
  The error is \<open>PreconditionFailed\<close> when the callback argument is null or a function; the
  check of the callback comes first, so with any other callback value the error is
  \<open>InvalidArgument\<close>.
\<close>

theorem update_requires_docId:
  assumes "\<not> truthy (get_prop this ''docId'')"
  shows "update m e transaction callBack prefix this s =
     \<lparr>result = Inl (if callBack = NotAFunction then InvalidArgument ''callBack''
                     else PreconditionFailed ''update''),
      this_out = this, txn_out = transaction, store_out = s\<rparr>"
  using assms by (cases callBack) (simp_all add: update_def)

text \<open>
  C6 as it is stated fails: with a callback argument that is not a function, \<open>update\<close> on
  an instance without \<open>docId\<close> fails with \<open>InvalidArgument\<close>, not with \<open>PreconditionFailed\<close>.
\<close>

theorem update_requires_docId_counterexample:
  "\<not> truthy (get_prop Map.empty ''docId'')
   \<and> result (update ex_model ex_env None NotAFunction None Map.empty ex_store)
       = Inl (InvalidArgument ''callBack'')
   \<and> result (update ex_model ex_env None NotAFunction None Map.empty ex_store)
       \<noteq> Inl (PreconditionFailed ''update'')"
  by (simp add: update_def get_prop_def)

theorem update_requires_docId_witness:
  "\<not> truthy (get_prop [ustr ''name'' \<mapsto> JStr (ustr ''Ann'')] ''docId'')
   \<and> update ex_model ex_env None NoCallback None [ustr ''name'' \<mapsto> JStr (ustr ''Ann'')] ex_store =
     \<lparr>result = Inl (PreconditionFailed ''update''),
      this_out = [ustr ''name'' \<mapsto> JStr (ustr ''Ann'')], txn_out = None, store_out = ex_store\<rparr>"
proof -
  have h: "\<not> truthy (get_prop [ustr ''name'' \<mapsto> JStr (ustr ''Ann'')] ''docId'')"
    by (simp add: get_prop_def ustr_def)
  from update_requires_docId [OF h, of ex_model ex_env None NoCallback None ex_store] h
  show ?thesis by simp
qed


section \<open>Properties of hasChild and delete\<close>

lemma exists_doc_iff:
  "exists_doc ds P \<longleftrightarrow> (\<exists>r d. map_of ds r = Some d \<and> P r d)"
proof
  assume "exists_doc ds P"
  then show "\<exists>r d. map_of ds r = Some d \<and> P r d"
    unfolding exists_doc_def list_ex_iff by (auto split: option.splits) blast
next
  assume "\<exists>r d. map_of ds r = Some d \<and> P r d"
  then obtain r d where rd: "map_of ds r = Some d" "P r d" by blast
  then have "(r, d) \<in> set ds" by (simp add: map_of_SomeD)
  moreover have "case map_of ds (fst (r, d)) of None \<Rightarrow> False | Some x \<Rightarrow> P (fst (r, d)) x"
    using rd by simp
  ultimately show "exists_doc ds P"
    unfolding exists_doc_def list_ex_iff set_map by blast
qed

lemma hasChild_loop_Some:
  "hasChild_loop P xs = Some x \<longleftrightarrow>
     (\<exists>pre post. xs = pre @ x # post \<and> (\<forall>y\<in>set pre. \<not> P y) \<and> P x)"
proof (induction xs)
  case Nil
  then show ?case by simp
next
  case (Cons a xs)
  show ?case
  proof (cases "P a")
    case True
    then show ?thesis
      by (auto simp: Cons_eq_append_conv)
  next
    case False
    then show ?thesis
      using Cons.IH by (auto simp: Cons_eq_append_conv) (metis set_ConsD)
  qed
qed

lemma hasChild_loop_None: "hasChild_loop P xs = None \<longleftrightarrow> (\<forall>x\<in>set xs. \<not> P x)"
  by (induction xs) auto

lemma relation_has_childI:
  assumes "map_of (docs view) r = Some doc" and "in_relation prefix item r"
    and "doc (r_field item) = Some v" and "opHolds e (r_condition item) v docId"
  shows "relation_has_child e view prefix docId item"
  unfolding relation_has_child_def exists_doc_iff
  using assms by (intro exI [of _ r] exI [of _ doc]) (simp add: where_holds_def)

lemma hasChild_with_docId:
  assumes "get_prop this ''docId'' = JStr d" and "d \<noteq> []"
  shows "hasChild m e (Some t) prefix this s' =
     Inr (hasChild_loop (relation_has_child e (snapshot t) prefix (JStr d)) (hasMany m))"
  using assms by (simp add: hasChild_def)

lemma delete_performTransaction_blocked:
  assumes "get_prop this ''docId'' = JStr d" and "d \<noteq> []"
    and "hasChild_loop (relation_has_child e (snapshot t) prefix (JStr d)) (hasMany m) = Some first"
  shows "delete_performTransaction m e callBack prefix this docRef t =
     (Inl (DependencyExists (r_collection first)), this, t)"
  using assms by (simp add: delete_performTransaction_def hasChild_with_docId)

lemma delete_reaches_transaction:
  assumes "callBack \<noteq> NotAFunction" and "truthy (get_prop this ''docId'')"
    and "beforeDelete m this = Inr this1"
    and "get_prop this1 ''docId'' = JStr d" and "d \<noteq> []"
  shows "delete m e transaction callBack prefix this s =
     (case transaction of
        Some t \<Rightarrow>
          (case delete_performTransaction m e callBack prefix this1 (getCollectionPath m prefix, d) t of
             (r, this2, t') \<Rightarrow> \<lparr>result = r, this_out = this2, txn_out = Some t', store_out = s\<rparr>)
      | None \<Rightarrow>
          (case runTransaction
                  (delete_performTransaction m e callBack prefix this1 (getCollectionPath m prefix, d)) s of
             (r, this2, s') \<Rightarrow> \<lparr>result = r, this_out = this2, txn_out = None, store_out = s'\<rparr>))"
  using assms by (simp add: delete_def doc_ref_def split: callback.splits)

text \<open>
  C2, as the code has it. Let the callback argument be null or a function, let the
  pre-delete hook pass, and let the instance then carry a non-empty string \<open>docId\<close>. When
  some relation of \<open>hasMany\<close> has a dependent record in what the transaction reads (a
  document in the relation's collection, or collection group, whose field passes the
  relation's condition against the \<open>docId\<close>), \<open>delete\<close> fails with \<open>DependencyExists\<close> naming
  the collection of the first such relation in the order of \<open>hasMany\<close>, and it issues no
  write: the caller's transaction and the store are as they were.
\<close>

theorem delete_blocked_by_dependent:
  assumes "callBack \<noteq> NotAFunction"
    and "truthy (get_prop this ''docId'')"
    and "beforeDelete m this = Inr this1"
    and "get_prop this1 ''docId'' = JStr d" and "d \<noteq> []"
    and "item \<in> set (hasMany m)"
    and "map_of (docs (case transaction of None \<Rightarrow> s | Some t \<Rightarrow> snapshot t)) r = Some doc"
    and "in_relation prefix item r"
    and "doc (r_field item) = Some v"
    and "opHolds e (r_condition item) v (JStr d)"
  shows "\<exists>pre first post.
           hasMany m = pre @ first # post
         \<and> (\<forall>x\<in>set pre. \<not> relation_has_child e
                (case transaction of None \<Rightarrow> s | Some t \<Rightarrow> snapshot t) prefix (JStr d) x)
         \<and> relation_has_child e
                (case transaction of None \<Rightarrow> s | Some t \<Rightarrow> snapshot t) prefix (JStr d) first
         \<and> delete m e transaction callBack prefix this s =
             \<lparr>result = Inl (DependencyExists (r_collection first)),
              this_out = this1, txn_out = transaction, store_out = s\<rparr>"
proof -
  let ?view = "case transaction of None \<Rightarrow> s | Some t \<Rightarrow> snapshot t"
  let ?P = "relation_has_child e ?view prefix (JStr d)"
  have "?P item" using assms(7-10) by (rule relation_has_childI)
  with assms(6) have "hasChild_loop ?P (hasMany m) \<noteq> None"
    by (auto simp: hasChild_loop_None)
  then obtain first where first: "hasChild_loop ?P (hasMany m) = Some first" by blast
  then obtain pre post where
    split: "hasMany m = pre @ first # post" "\<forall>x\<in>set pre. \<not> ?P x" "?P first"
    unfolding hasChild_loop_Some by blast
  note out = delete_reaches_transaction [OF assms(1-5), of e _ prefix s]
  have "delete m e transaction callBack prefix this s =
             \<lparr>result = Inl (DependencyExists (r_collection first)),
              this_out = this1, txn_out = transaction, store_out = s\<rparr>"
  proof (cases transaction)
    case None
    then have "hasChild_loop (relation_has_child e (snapshot \<lparr>snapshot = s, writes = []\<rparr>)
        prefix (JStr d)) (hasMany m) = Some first"
      using first by simp
    from delete_performTransaction_blocked [OF assms(4,5) this]
    show ?thesis by (simp add: out None runTransaction_def)
  next
    case (Some t)
    then have "hasChild_loop (relation_has_child e (snapshot t) prefix (JStr d)) (hasMany m)
        = Some first"
      using first by simp
    from delete_performTransaction_blocked [OF assms(4,5) this]
    show ?thesis by (simp add: out Some)
  qed
  with split show ?thesis by blast
qed

text \<open>
  C2 as it is stated fails: with a callback argument that is not a function the call
  fails with \<open>InvalidArgument\<close> before the dependents are looked at.
\<close>

theorem delete_blocked_by_dependent_counterexample:
  "relation_has_child ex_env ex_store None (JStr (ustr ''c1'')) (hd (hasMany ex_model))
   \<and> result (delete ex_model ex_env None NotAFunction None
               [ustr ''docId'' \<mapsto> JStr (ustr ''c1'')] ex_store)
       = Inl (InvalidArgument ''callBack'')
   \<and> result (delete ex_model ex_env None NotAFunction None
               [ustr ''docId'' \<mapsto> JStr (ustr ''c1'')] ex_store)
       \<noteq> Inl (DependencyExists (ustr ''Sites''))"
  by (simp add: delete_def relation_has_child_def exists_doc_def in_relation_def
      relation_path_def where_holds_def ex_model_def ex_env_def ex_store_def ustr_def)

theorem delete_blocked_by_dependent_witness:
  "delete ex_model ex_env None NoCallback None [ustr ''docId'' \<mapsto> JStr (ustr ''c1'')] ex_store =
     \<lparr>result = Inl (DependencyExists (ustr ''Sites'')),
      this_out = [ustr ''docId'' \<mapsto> JStr (ustr ''c1'')], txn_out = None, store_out = ex_store\<rparr>"
proof -
  let ?inst = "[ustr ''docId'' \<mapsto> JStr (ustr ''c1'')]"
  let ?item = "\<lparr>r_type = ustr ''collection'', r_collection = ustr ''Sites'',
                r_field = ustr ''customerId'', r_condition = ustr ''==''\<rparr>"
  let ?site = "[ustr ''customerId'' \<mapsto> JStr (ustr ''c1'')] :: obj"
  have h1: "NoCallback \<noteq> NotAFunction" by simp
  have h2: "truthy (get_prop ?inst ''docId'')" by (simp add: get_prop_def ustr_def)
  have h3: "beforeDelete ex_model ?inst = Inr ?inst" by (simp add: ex_model_def)
  have h4: "get_prop ?inst ''docId'' = JStr (ustr ''c1'')" by (simp add: get_prop_def)
  have h5: "ustr ''c1'' \<noteq> []" by (simp add: ustr_def)
  have h6: "?item \<in> set (hasMany ex_model)" by (simp add: ex_model_def)
  have h7: "map_of (docs (case None of None \<Rightarrow> ex_store | Some t \<Rightarrow> snapshot t))
      (ustr ''Sites'', ustr ''s1'') = Some ?site"
    by (simp add: ex_store_def ustr_def)
  have h8: "in_relation None ?item (ustr ''Sites'', ustr ''s1'')"
    by (simp add: in_relation_def relation_path_def)
  have h9: "?site (r_field ?item) = Some (JStr (ustr ''c1''))"
    by simp
  have h10: "opHolds ex_env (r_condition ?item) (JStr (ustr ''c1'')) (JStr (ustr ''c1''))"
    by (simp add: ex_env_def)
  from delete_blocked_by_dependent [OF h1 h2 h3 h4 h5 h6 h7 h8 h9 h10]
  obtain pre first post where
    hm: "hasMany ex_model = pre @ first # post"
    and out: "delete ex_model ex_env None NoCallback None ?inst ex_store =
             \<lparr>result = Inl (DependencyExists (r_collection first)),
              this_out = ?inst, txn_out = None, store_out = ex_store\<rparr>"
    by blast
  from hm have "first = ?item"
    by (auto simp: ex_model_def Cons_eq_append_conv)
  with out show ?thesis by simp
qed


section \<open>Properties of delete followed by restore\<close>

lemma commit_append:
  "commit (xs @ ys) s = (case commit xs s of None \<Rightarrow> None | Some s' \<Rightarrow> commit ys s')"
  by (induction xs arbitrary: s) (auto split: option.splits)

lemma apply_write_untouched:
  "apply_write w s = Some s' \<Longrightarrow> write_ref w \<noteq> Some r \<Longrightarrow> map_of (docs s') r = map_of (docs s) r"
  by (cases w) (auto simp: map_of_set_doc map_of_delete_doc split: option.splits)

lemma commit_untouched:
  "commit ws s = Some s' \<Longrightarrow> \<forall>w\<in>set ws. write_ref w \<noteq> Some r
     \<Longrightarrow> map_of (docs s') r = map_of (docs s) r"
proof (induction ws arbitrary: s)
  case Nil
  then show ?case by simp
next
  case (Cons w ws)
  from Cons.prems(1) obtain s1 where s1: "apply_write w s = Some s1" "commit ws s1 = Some s'"
    by (auto split: option.splits)
  have "map_of (docs s1) r = map_of (docs s) r"
    using s1(1) Cons.prems(2) by (intro apply_write_untouched) auto
  moreover have "map_of (docs s') r = map_of (docs s1) r"
    using s1(2) Cons.prems(2) by (intro Cons.IH) auto
  ultimately show ?case by simp
qed

lemma archive_ref_neq: "archive_ref p \<noteq> p"
  by (cases p) (simp add: archive_ref_def ustr_def)

lemma delete_performTransaction_success:
  assumes "delete_performTransaction m e callBack prefix this p t = (Inr (), this', t')"
    and "logicalDelete m"
  shows "\<exists>doc. map_of (docs (snapshot t)) p = Some doc
           \<and> writes t' = writes t @ [WSet (archive_ref p) doc, WDelete p]
                @ (case callBack of
                     Callback f \<Rightarrow> fst (f (t\<lparr>writes := writes t @ [WSet (archive_ref p) doc, WDelete p]\<rparr>))
                   | _ \<Rightarrow> [])"
  using assms
  by (auto simp: delete_performTransaction_def run_callBack_def issue_def
      split: sum.splits option.splits if_splits callback.splits prod.splits)

lemma restore_archived:
  assumes "map_of (docs s1) (archive_ref (getCollectionPath m prefix, d)) = Some doc" and "d \<noteq> []"
  shows "restore m (Some d) prefix s1 =
     (Inr (getCollectionPath m prefix, d),
      s1\<lparr>docs := set_doc (getCollectionPath m prefix, d) doc
                   (delete_doc (archive_ref (getCollectionPath m prefix, d)) (docs s1))\<rparr>)"
  using assms by (simp add: restore_def Let_def)

text \<open>
  C3, as the code has it. For a model with \<open>logicalDelete\<close>, let \<open>delete\<close> run in its own
  transaction, with a callback (if any) that writes neither to the primary nor to the
  archive record of the document, and succeed. Then the document existed before; after
  the \<open>delete\<close> the primary record is gone and the archive holds the document as it was;
  \<open>restore\<close> of the same id under the same prefix succeeds, and after it the primary
  collection holds the document exactly as before the \<open>delete\<close> and the archive holds no
  record for it. So after each of the two operations at most one of the two records is
  present.
\<close>

theorem delete_restore_roundtrip:
  fixes m :: model and prefix :: "jsstring option" and d :: jsstring
  defines "p \<equiv> (getCollectionPath m prefix, d)"
  assumes "logicalDelete m"
    and "callBack \<noteq> NotAFunction"
    and "truthy (get_prop this ''docId'')"
    and "beforeDelete m this = Inr this1"
    and "get_prop this1 ''docId'' = JStr d" and "d \<noteq> []"
    and "\<forall>f t w. callBack = Callback f \<longrightarrow> w \<in> set (fst (f t))
           \<longrightarrow> write_ref w \<noteq> Some p \<and> write_ref w \<noteq> Some (archive_ref p)"
    and "result (delete m e None callBack prefix this s) = Inr ()"
  shows "(\<exists>doc. map_of (docs s) p = Some doc)
       \<and> map_of (docs (store_out (delete m e None callBack prefix this s))) p = None
       \<and> map_of (docs (store_out (delete m e None callBack prefix this s))) (archive_ref p)
           = map_of (docs s) p
       \<and> fst (restore m (Some d) prefix (store_out (delete m e None callBack prefix this s))) = Inr p
       \<and> map_of (docs (snd (restore m (Some d) prefix
             (store_out (delete m e None callBack prefix this s))))) p = map_of (docs s) p
       \<and> map_of (docs (snd (restore m (Some d) prefix
             (store_out (delete m e None callBack prefix this s))))) (archive_ref p) = None"
proof -
  let ?s1 = "store_out (delete m e None callBack prefix this s)"
  let ?t = "\<lparr>snapshot = s, writes = []\<rparr>"
  note out = delete_reaches_transaction [OF assms(3-7), of e None prefix s, folded p_def]
  obtain r this2 t' where
    body: "delete_performTransaction m e callBack prefix this1 p ?t = (r, this2, t')"
    by (metis prod_cases3)
  have r: "r = Inr ()" and com: "commit (writes t') s = Some ?s1"
    using assms(9) body unfolding out
    by (auto simp: runTransaction_def split: sum.splits option.splits)
  from delete_performTransaction_success [OF body [unfolded r] assms(2)]
  obtain doc cbws where
    doc: "map_of (docs s) p = Some doc"
    and ws: "writes t' = [WSet (archive_ref p) doc, WDelete p] @ cbws"
    and cbws: "cbws = (case callBack of
                 Callback f \<Rightarrow> fst (f (?t\<lparr>writes := writes ?t @ [WSet (archive_ref p) doc, WDelete p]\<rparr>))
               | _ \<Rightarrow> [])"
    by auto
  have quiet: "\<forall>w\<in>set cbws. write_ref w \<noteq> Some p \<and> write_ref w \<noteq> Some (archive_ref p)"
    using assms(8) unfolding cbws by (cases callBack) auto
  let ?s0 = "s\<lparr>docs := delete_doc p (set_doc (archive_ref p) doc (docs s))\<rparr>"
  have mid: "commit cbws ?s0 = Some ?s1"
    using com unfolding ws by simp
  have p1: "map_of (docs ?s1) p = None"
  proof -
    have "map_of (docs ?s1) p = map_of (docs ?s0) p"
      using mid quiet by (intro commit_untouched) auto
    then show ?thesis by (simp add: map_of_delete_doc)
  qed
  have a1: "map_of (docs ?s1) (archive_ref p) = Some doc"
  proof -
    have "map_of (docs ?s1) (archive_ref p) = map_of (docs ?s0) (archive_ref p)"
      using mid quiet by (intro commit_untouched) auto
    then show ?thesis using archive_ref_neq [of p] by (simp add: map_of_delete_doc map_of_set_doc)
  qed
  note rest = restore_archived [of ?s1 m prefix d doc, folded p_def, OF a1 assms(7)]
  have p2: "map_of (docs (snd (restore m (Some d) prefix ?s1))) p = Some doc"
    unfolding rest by (simp add: map_of_set_doc)
  have a2: "map_of (docs (snd (restore m (Some d) prefix ?s1))) (archive_ref p) = None"
    unfolding rest using archive_ref_neq [of p] by (simp add: map_of_set_doc map_of_delete_doc)
  have ok: "fst (restore m (Some d) prefix ?s1) = Inr p"
    unfolding rest by simp
  from doc p1 a1 ok p2 a2 show ?thesis by simp
qed

lemmas ex_delete_eval =
  delete_def delete_performTransaction_def hasChild_def relation_has_child_def exists_doc_def
  in_relation_def relation_path_def where_holds_def doc_ref_def archive_ref_def restore_def

lemma ex_delete_c2:
  "delete ex_model ex_env None NoCallback None [ustr ''docId'' \<mapsto> JStr (ustr ''c2'')] ex_store =
     \<lparr>result = Inr (), this_out = [ustr ''docId'' \<mapsto> JStr (ustr ''c2'')], txn_out = None,
      store_out =
        \<lparr>docs =
           [((ustr ''Customers'', ustr ''c1''), [ustr ''name'' \<mapsto> JStr (ustr ''Ann'')]),
            ((ustr ''Sites'', ustr ''s1''), [ustr ''customerId'' \<mapsto> JStr (ustr ''c1'')]),
            ((ustr ''Customers_archive'', ustr ''c2''), [ustr ''name'' \<mapsto> JStr (ustr ''Bob'')])],
         autonumbers = ex_counters 7\<rparr>\<rparr>"
  by (simp add: ex_delete_eval ex_eval)

theorem delete_restore_roundtrip_witness:
  "result (delete ex_model ex_env None NoCallback None [ustr ''docId'' \<mapsto> JStr (ustr ''c2'')] ex_store)
     = Inr ()
   \<and> map_of (docs ex_store) (ustr ''Customers'', ustr ''c2'')
       = Some [ustr ''name'' \<mapsto> JStr (ustr ''Bob'')]
   \<and> map_of (docs (store_out (delete ex_model ex_env None NoCallback None
         [ustr ''docId'' \<mapsto> JStr (ustr ''c2'')] ex_store))) (ustr ''Customers'', ustr ''c2'') = None
   \<and> fst (restore ex_model (Some (ustr ''c2'')) None
         (store_out (delete ex_model ex_env None NoCallback None
            [ustr ''docId'' \<mapsto> JStr (ustr ''c2'')] ex_store)))
       = Inr (ustr ''Customers'', ustr ''c2'')
   \<and> map_of (docs (snd (restore ex_model (Some (ustr ''c2'')) None
         (store_out (delete ex_model ex_env None NoCallback None
            [ustr ''docId'' \<mapsto> JStr (ustr ''c2'')] ex_store))))) (ustr ''Customers'', ustr ''c2'')
       = Some [ustr ''name'' \<mapsto> JStr (ustr ''Bob'')]
   \<and> map_of (docs (snd (restore ex_model (Some (ustr ''c2'')) None
         (store_out (delete ex_model ex_env None NoCallback None
            [ustr ''docId'' \<mapsto> JStr (ustr ''c2'')] ex_store)))))
         (ustr ''Customers_archive'', ustr ''c2'') = None"
proof -
  let ?inst = "[ustr ''docId'' \<mapsto> JStr (ustr ''c2'')]"
  have h1: "logicalDelete ex_model" by (simp add: ex_model_def)
  have h2: "NoCallback \<noteq> NotAFunction" by simp
  have h3: "truthy (get_prop ?inst ''docId'')" by (simp add: get_prop_def ustr_def)
  have h4: "beforeDelete ex_model ?inst = Inr ?inst" by (simp add: ex_model_def)
  have h5: "get_prop ?inst ''docId'' = JStr (ustr ''c2'')" by (simp add: get_prop_def)
  have h6: "ustr ''c2'' \<noteq> []" by (simp add: ustr_def)
  have h7: "\<forall>f t w. NoCallback = Callback f \<longrightarrow> w \<in> set (fst (f t))
      \<longrightarrow> write_ref w \<noteq> Some (getCollectionPath ex_model None, ustr ''c2'')
        \<and> write_ref w \<noteq> Some (archive_ref (getCollectionPath ex_model None, ustr ''c2''))"
    by simp
  have h8: "result (delete ex_model ex_env None NoCallback None ?inst ex_store) = Inr ()"
    by (simp add: ex_delete_c2)
  have p: "(getCollectionPath ex_model None, ustr ''c2'') = (ustr ''Customers'', ustr ''c2'')"
    by (simp add: ex_model_def)
  have a: "archive_ref (ustr ''Customers'', ustr ''c2'') = (ustr ''Customers_archive'', ustr ''c2'')"
    by (simp add: archive_ref_def ustr_def)
  have before: "map_of (docs ex_store) (ustr ''Customers'', ustr ''c2'')
       = Some [ustr ''name'' \<mapsto> JStr (ustr ''Bob'')]"
    by (simp add: ex_store_def ustr_def)
  from delete_restore_roundtrip [OF h1 h2 h3 h4 h5 h6 h7 h8] h8 before
  show ?thesis unfolding p a by simp
qed

text \<open>
  C3 as it is stated fails. A callback given to \<open>delete\<close> may write to the archive record
  in the same transaction: the \<open>restore\<close> then brings back what the callback wrote, not the
  document that was deleted. And the two records can both be present after a completed
  operation: \<open>create\<close> with the id of an archived document does not look at the archive.
\<close>

theorem delete_restore_roundtrip_counterexample:
  "result (delete ex_model ex_env None ex_overwriting_callBack None
             [ustr ''docId'' \<mapsto> JStr (ustr ''c2'')] ex_store) = Inr ()
   \<and> fst (restore ex_model (Some (ustr ''c2'')) None
         (store_out (delete ex_model ex_env None ex_overwriting_callBack None
            [ustr ''docId'' \<mapsto> JStr (ustr ''c2'')] ex_store)))
       = Inr (ustr ''Customers'', ustr ''c2'')
   \<and> map_of (docs ex_store) (ustr ''Customers'', ustr ''c2'')
       = Some [ustr ''name'' \<mapsto> JStr (ustr ''Bob'')]
   \<and> map_of (docs (snd (restore ex_model (Some (ustr ''c2'')) None
         (store_out (delete ex_model ex_env None ex_overwriting_callBack None
            [ustr ''docId'' \<mapsto> JStr (ustr ''c2'')] ex_store))))) (ustr ''Customers'', ustr ''c2'')
       = Some [ustr ''name'' \<mapsto> JStr (ustr ''Eve'')]
   \<and> map_of (docs (snd (restore ex_model (Some (ustr ''c2'')) None
         (store_out (delete ex_model ex_env None ex_overwriting_callBack None
            [ustr ''docId'' \<mapsto> JStr (ustr ''c2'')] ex_store))))) (ustr ''Customers'', ustr ''c2'')
       \<noteq> map_of (docs ex_store) (ustr ''Customers'', ustr ''c2'')
   \<and> result (create ex_model ex_env (Some (ustr ''c2'')) False None NoCallback None Map.empty
         (store_out (delete ex_model ex_env None NoCallback None
            [ustr ''docId'' \<mapsto> JStr (ustr ''c2'')] ex_store)))
       = Inr (ustr ''Customers'', ustr ''c2'')
   \<and> map_of (docs (store_out (create ex_model ex_env (Some (ustr ''c2'')) False None NoCallback None
         Map.empty (store_out (delete ex_model ex_env None NoCallback None
            [ustr ''docId'' \<mapsto> JStr (ustr ''c2'')] ex_store)))))
         (ustr ''Customers'', ustr ''c2'') \<noteq> None
   \<and> map_of (docs (store_out (create ex_model ex_env (Some (ustr ''c2'')) False None NoCallback None
         Map.empty (store_out (delete ex_model ex_env None NoCallback None
            [ustr ''docId'' \<mapsto> JStr (ustr ''c2'')] ex_store)))))
         (ustr ''Customers_archive'', ustr ''c2'') \<noteq> None"
proof -
  have "[ustr ''name'' \<mapsto> JStr (ustr ''Eve'')] \<noteq> [ustr ''name'' \<mapsto> JStr (ustr ''Bob'')]"
  proof
    assume "[ustr ''name'' \<mapsto> JStr (ustr ''Eve'')] = [ustr ''name'' \<mapsto> JStr (ustr ''Bob'')]"
    then have "[ustr ''name'' \<mapsto> JStr (ustr ''Eve'')] (ustr ''name'')
        = [ustr ''name'' \<mapsto> JStr (ustr ''Bob'')] (ustr ''name'')"
      by (rule fun_cong)
    then show False by (simp add: ustr_def)
  qed
  then show ?thesis
    by (simp add: ex_delete_eval ex_eval ex_overwriting_callBack_def)
qed


end
